theory Spec2Isabelle
  imports Complex_Main "HOL-Library.Sublist"
begin

section \<open>The notebook \<open>aws/rapids_intro.ipynb\<close> as a program of cells\<close>

text \<open>
  The repository is one Jupyter notebook. Its code cells are straight-line Python: imports,
  assignments and calls into cuDF, cuML and scikit-learn. The cells are embedded statement
  by statement; everything the notebook does not implement itself (the Python runtime's
  import machinery, attribute lookup, operators on library objects, calls of library
  functions, \<open>str\<close> of library objects) is a parameter of the model, the \<open>runtime\<close>.
  Every such operation may raise, and may change the state the libraries keep (device
  memory, fitted models, random generators), which is threaded through as the \<open>heap\<close>.

  The notebook is run from top to bottom in a fresh kernel. A cell that starts with
  \<open>%%time\<close> runs under IPython's time magic, which is modelled with the cells below.
  Not modelled: the wall-clock times the magic prints and the rich display of a cell's
  last expression.
\<close>

subsection \<open>Syntax of the fragment of Python the notebook uses\<close>

type_synonym name = string

datatype lit = IntLit int | DecLit int int | BoolLit bool | StrLit string

datatype binop = Div | Mult | Mod | Pow

datatype expr =
    Var name
  | Const lit
  | Attr expr name
  | Call expr "expr list" "(name \<times> expr) list"
  | Subscript expr expr
  | BinOp binop expr expr

datatype stmt =
    Import name
  | FromImport name "(name \<times> name) list"
  | Assign name expr
  | AssignTuple "name list" expr
  | SetItem expr expr expr
  | Expr expr

subsection \<open>Values, errors and state\<close>

text \<open>
  \<open>DecV m e\<close> is the decimal literal \<open>m * 10^e\<close> as written in the source (\<open>0.2\<close> is
  \<open>DecV 2 (-1)\<close>); \<open>ObjV\<close> is an object owned by a library; \<open>PrintFn\<close> is the builtin
  \<open>print\<close>.
\<close>

datatype 'o val =
    NoneV
  | IntV int
  | DecV int int
  | BoolV bool
  | StrV string
  | TupleV "'o val list"
  | ObjV 'o
  | PrintFn

text \<open>
  \<open>Raised e\<close> is an exception raised by the runtime or a library, carried as it was
  raised. \<open>NameError\<close> is the read of an unbound name and \<open>UnpackError\<close> the
  \<open>ValueError\<close> of unpacking a tuple of the wrong length, both raised by the interpreter
  itself; \<open>Unmodelled\<close> marks Python behaviour outside the fragment the notebook uses.
\<close>

datatype 'e error = Raised 'e | NameError name | UnpackError | Unmodelled

text \<open>One entry of the call log: the callee as written, its value, the arguments.\<close>

datatype 'o event = CallEv expr "'o val" "'o val list" "(name \<times> 'o val) list"

text \<open>
  The state of the kernel: the global names, the state of the libraries, and what was
  printed. \<open>log\<close> and \<open>raised\<close> are ghost fields that no statement reads: the calls made
  so far and the exceptions the runtime raised so far, in order. \<open>shown\<close> holds the errors
  whose traceback the time magic has shown so far.
\<close>

record ('o, 'h, 'e) state =
  env :: "name \<rightharpoonup> 'o val"
  heap :: 'h
  stdout :: string
  log :: "'o event list"
  raised :: "'e list"
  shown :: "'e error list"

record ('o, 'h, 'e) runtime =
  rt_import :: "name \<Rightarrow> 'h \<Rightarrow> 'e + ('o val \<times> 'h)"
  rt_getattr :: "'o val \<Rightarrow> name \<Rightarrow> 'h \<Rightarrow> 'e + ('o val \<times> 'h)"
  rt_call :: "'o val \<Rightarrow> 'o val list \<Rightarrow> (name \<times> 'o val) list \<Rightarrow> 'h \<Rightarrow> 'e + ('o val \<times> 'h)"
  rt_getitem :: "'o val \<Rightarrow> 'o val \<Rightarrow> 'h \<Rightarrow> 'e + ('o val \<times> 'h)"
  rt_setitem :: "'o val \<Rightarrow> 'o val \<Rightarrow> 'o val \<Rightarrow> 'h \<Rightarrow> 'e + (unit \<times> 'h)"
  rt_binop :: "binop \<Rightarrow> 'o val \<Rightarrow> 'o val \<Rightarrow> 'h \<Rightarrow> 'e + ('o val \<times> 'h)"
  rt_str :: "'o val \<Rightarrow> 'h \<Rightarrow> 'e + (string \<times> 'h)"

text \<open>
  A result is either the error raised together with the state at that point, or a value
  together with the new state.
\<close>

type_synonym ('o, 'h, 'e, 'a) result = "('e error \<times> ('o, 'h, 'e) state) + ('a \<times> ('o, 'h, 'e) state)"

subsection \<open>Evaluation of expressions\<close>

text \<open>
  Every operation of the runtime is used through \<open>from_rt\<close>: an exception is recorded and
  becomes the result, a normal return updates the heap.
\<close>

definition from_rt :: "('o, 'h, 'e) state \<Rightarrow> 'e + ('a \<times> 'h) \<Rightarrow> ('o, 'h, 'e, 'a) result" where
  "from_rt st r =
     (case r of
        Inl e \<Rightarrow> Inl (Raised e, st\<lparr>raised := raised st @ [e]\<rparr>)
      | Inr (v, h) \<Rightarrow> Inr (v, st\<lparr>heap := h\<rparr>))"

fun lit_val :: "lit \<Rightarrow> 'o val" where
  "lit_val (IntLit i) = IntV i"
| "lit_val (DecLit m e) = DecV m e"
| "lit_val (BoolLit b) = BoolV b"
| "lit_val (StrLit s) = StrV s"

text \<open>\<open>str(v)\<close>: a string is its own text, anything else is asked of the runtime.\<close>

definition str_of :: "('o, 'h, 'e) runtime \<Rightarrow> 'o val \<Rightarrow> 'h \<Rightarrow> 'e + (string \<times> 'h)" where
  "str_of rt v h = (case v of StrV s \<Rightarrow> Inr (s, h) | _ \<Rightarrow> rt_str rt v h)"

definition py_str :: "('o, 'h, 'e) runtime \<Rightarrow> 'o val \<Rightarrow> ('o, 'h, 'e) state \<Rightarrow> ('o, 'h, 'e, string) result" where
  "py_str rt v st = from_rt st (str_of rt v (heap st))"

text \<open>
  \<open>fmt % v\<close> with a string on the left. The only directive modelled is \<open>%s\<close>, the one the
  notebook uses: \<open>subst_s\<close> returns the format with its single \<open>%s\<close> replaced, and
  \<open>None\<close> when the format has no directive, a second one, or another kind (outside the
  fragment). A tuple on the right is outside the fragment as well.
\<close>

fun subst_s :: "string \<Rightarrow> string \<Rightarrow> string option" where
  "subst_s [] s = None"
| "subst_s [c] s = None"
| "subst_s (c # d # cs) s =
     (if c = CHR ''%'' then
        (if d = CHR ''s'' \<and> CHR ''%'' \<notin> set cs then Some (s @ cs) else None)
      else map_option ((#) c) (subst_s (d # cs) s))"

definition str_format :: "('o, 'h, 'e) runtime \<Rightarrow> string \<Rightarrow> 'o val \<Rightarrow> ('o, 'h, 'e) state \<Rightarrow> ('o, 'h, 'e, 'o val) result" where
  "str_format rt fmt v st =
     (case v of
        TupleV vs \<Rightarrow> Inl (Unmodelled, st)
      | _ \<Rightarrow>
        (case py_str rt v st of
           Inl x \<Rightarrow> Inl x
         | Inr (s, st1) \<Rightarrow>
           (case subst_s fmt s of
              None \<Rightarrow> Inl (Unmodelled, st1)
            | Some r \<Rightarrow> Inr (StrV r, st1))))"

text \<open>
  Binary operators: \<open>**\<close> on two integers with a non-negative exponent and \<open>%\<close> with a
  string on the left are computed here; every other combination is an operator method of
  a library object and is asked of the runtime.
\<close>

definition eval_binop :: "('o, 'h, 'e) runtime \<Rightarrow> binop \<Rightarrow> 'o val \<Rightarrow> 'o val \<Rightarrow> ('o, 'h, 'e) state \<Rightarrow> ('o, 'h, 'e, 'o val) result" where
  "eval_binop rt b x y st =
     (case (b, x, y) of
        (Pow, IntV i, IntV j) \<Rightarrow>
          (if 0 \<le> j then Inr (IntV (i ^ nat j), st) else from_rt st (rt_binop rt b x y (heap st)))
      | (Mod, StrV fmt, _) \<Rightarrow> str_format rt fmt y st
      | _ \<Rightarrow> from_rt st (rt_binop rt b x y (heap st)))"

text \<open>
  \<open>print(a, b, ...)\<close> writes the \<open>str\<close> of its arguments, separated by one space and
  ended by a newline, to standard output. Keyword arguments of \<open>print\<close> are not used by
  the notebook.
\<close>

fun strs :: "('o, 'h, 'e) runtime \<Rightarrow> 'o val list \<Rightarrow> ('o, 'h, 'e) state \<Rightarrow> ('o, 'h, 'e, string list) result" where
  "strs rt [] st = Inr ([], st)"
| "strs rt (v # vs) st =
     (case py_str rt v st of
        Inl x \<Rightarrow> Inl x
      | Inr (s, st1) \<Rightarrow>
        (case strs rt vs st1 of
           Inl x \<Rightarrow> Inl x
         | Inr (ss, st2) \<Rightarrow> Inr (s # ss, st2)))"

fun join_sp :: "string list \<Rightarrow> string" where
  "join_sp [] = []"
| "join_sp [s] = s"
| "join_sp (s # t # ss) = s @ '' '' @ join_sp (t # ss)"

definition newline :: char where
  "newline = CHR 0x0A"

definition py_print :: "('o, 'h, 'e) runtime \<Rightarrow> 'o val list \<Rightarrow> (name \<times> 'o val) list \<Rightarrow> ('o, 'h, 'e) state \<Rightarrow> ('o, 'h, 'e, 'o val) result" where
  "py_print rt vs ks st =
     (if ks \<noteq> [] then Inl (Unmodelled, st)
      else
        (case strs rt vs st of
           Inl x \<Rightarrow> Inl x
         | Inr (ss, st1) \<Rightarrow> Inr (NoneV, st1\<lparr>stdout := stdout st1 @ join_sp ss @ [newline]\<rparr>)))"

text \<open>A call is logged when it is made, after its callee and arguments were evaluated.\<close>

definition apply_fn :: "('o, 'h, 'e) runtime \<Rightarrow> expr \<Rightarrow> 'o val \<Rightarrow> 'o val list \<Rightarrow> (name \<times> 'o val) list \<Rightarrow> ('o, 'h, 'e) state \<Rightarrow> ('o, 'h, 'e, 'o val) result" where
  "apply_fn rt f fv vs ks st =
     (let st1 = st\<lparr>log := log st @ [CallEv f fv vs ks]\<rparr>
      in case fv of
           PrintFn \<Rightarrow> py_print rt vs ks st1
         | _ \<Rightarrow> from_rt st1 (rt_call rt fv vs ks (heap st1)))"

text \<open>
  Python evaluates the callee, then the positional arguments from left to right, then the
  keyword arguments in the order written; the operands of a binary operator and of a
  subscript from left to right.
\<close>

fun eval :: "('o, 'h, 'e) runtime \<Rightarrow> expr \<Rightarrow> ('o, 'h, 'e) state \<Rightarrow> ('o, 'h, 'e, 'o val) result"
and eval_args :: "('o, 'h, 'e) runtime \<Rightarrow> expr list \<Rightarrow> ('o, 'h, 'e) state \<Rightarrow> ('o, 'h, 'e, 'o val list) result"
and eval_kwargs :: "('o, 'h, 'e) runtime \<Rightarrow> (name \<times> expr) list \<Rightarrow> ('o, 'h, 'e) state \<Rightarrow> ('o, 'h, 'e, (name \<times> 'o val) list) result"
where
  "eval rt (Var x) st =
     (case env st x of None \<Rightarrow> Inl (NameError x, st) | Some v \<Rightarrow> Inr (v, st))"
| "eval rt (Const l) st = Inr (lit_val l, st)"
| "eval rt (Attr e a) st =
     (case eval rt e st of
        Inl x \<Rightarrow> Inl x
      | Inr (v, st1) \<Rightarrow> from_rt st1 (rt_getattr rt v a (heap st1)))"
| "eval rt (Call f as ks) st =
     (case eval rt f st of
        Inl x \<Rightarrow> Inl x
      | Inr (fv, st1) \<Rightarrow>
        (case eval_args rt as st1 of
           Inl x \<Rightarrow> Inl x
         | Inr (vs, st2) \<Rightarrow>
           (case eval_kwargs rt ks st2 of
              Inl x \<Rightarrow> Inl x
            | Inr (kvs, st3) \<Rightarrow> apply_fn rt f fv vs kvs st3)))"
| "eval rt (Subscript e k) st =
     (case eval rt e st of
        Inl x \<Rightarrow> Inl x
      | Inr (v, st1) \<Rightarrow>
        (case eval rt k st1 of
           Inl x \<Rightarrow> Inl x
         | Inr (kv, st2) \<Rightarrow> from_rt st2 (rt_getitem rt v kv (heap st2))))"
| "eval rt (BinOp b l r) st =
     (case eval rt l st of
        Inl x \<Rightarrow> Inl x
      | Inr (lv, st1) \<Rightarrow>
        (case eval rt r st1 of
           Inl x \<Rightarrow> Inl x
         | Inr (rv, st2) \<Rightarrow> eval_binop rt b lv rv st2))"
| "eval_args rt [] st = Inr ([], st)"
| "eval_args rt (a # as) st =
     (case eval rt a st of
        Inl x \<Rightarrow> Inl x
      | Inr (v, st1) \<Rightarrow>
        (case eval_args rt as st1 of
           Inl x \<Rightarrow> Inl x
         | Inr (vs, st2) \<Rightarrow> Inr (v # vs, st2)))"
| "eval_kwargs rt [] st = Inr ([], st)"
| "eval_kwargs rt ((k, a) # ks) st =
     (case eval rt a st of
        Inl x \<Rightarrow> Inl x
      | Inr (v, st1) \<Rightarrow>
        (case eval_kwargs rt ks st1 of
           Inl x \<Rightarrow> Inl x
         | Inr (kvs, st2) \<Rightarrow> Inr ((k, v) # kvs, st2)))"

subsection \<open>Execution of statements\<close>

definition bind :: "name \<Rightarrow> 'o val \<Rightarrow> ('o, 'h, 'e) state \<Rightarrow> ('o, 'h, 'e) state" where
  "bind x v st = st\<lparr>env := (env st)(x \<mapsto> v)\<rparr>"

fun bind_all :: "name list \<Rightarrow> 'o val list \<Rightarrow> ('o, 'h, 'e) state \<Rightarrow> ('o, 'h, 'e) state" where
  "bind_all (x # xs) (v # vs) st = bind_all xs vs (bind x v st)"
| "bind_all _ _ st = st"

text \<open>
  \<open>from m import a as b, ...\<close>: after the module is imported, each name is looked up in
  it and bound, one after the other.
\<close>

fun import_from :: "('o, 'h, 'e) runtime \<Rightarrow> 'o val \<Rightarrow> (name \<times> name) list \<Rightarrow> ('o, 'h, 'e) state \<Rightarrow> ('o, 'h, 'e, unit) result" where
  "import_from rt m [] st = Inr ((), st)"
| "import_from rt m ((a, b) # ns) st =
     (case from_rt st (rt_getattr rt m a (heap st)) of
        Inl x \<Rightarrow> Inl x
      | Inr (v, st1) \<Rightarrow> import_from rt m ns (bind b v st1))"

text \<open>
  An assignment to several targets unpacks a tuple of exactly that many values. In
  \<open>e[k] = r\<close> the right-hand side is evaluated first, then \<open>e\<close>, then \<open>k\<close>.
\<close>

fun exec_stmt :: "('o, 'h, 'e) runtime \<Rightarrow> stmt \<Rightarrow> ('o, 'h, 'e) state \<Rightarrow> ('o, 'h, 'e, unit) result" where
  "exec_stmt rt (Import m) st =
     (case from_rt st (rt_import rt m (heap st)) of
        Inl x \<Rightarrow> Inl x
      | Inr (v, st1) \<Rightarrow> Inr ((), bind m v st1))"
| "exec_stmt rt (FromImport m ns) st =
     (case from_rt st (rt_import rt m (heap st)) of
        Inl x \<Rightarrow> Inl x
      | Inr (v, st1) \<Rightarrow> import_from rt v ns st1)"
| "exec_stmt rt (Assign x e) st =
     (case eval rt e st of
        Inl x \<Rightarrow> Inl x
      | Inr (v, st1) \<Rightarrow> Inr ((), bind x v st1))"
| "exec_stmt rt (AssignTuple xs e) st =
     (case eval rt e st of
        Inl x \<Rightarrow> Inl x
      | Inr (v, st1) \<Rightarrow>
        (case v of
           TupleV vs \<Rightarrow>
             (if length vs = length xs then Inr ((), bind_all xs vs st1)
              else Inl (UnpackError, st1))
         | _ \<Rightarrow> Inl (Unmodelled, st1)))"
| "exec_stmt rt (SetItem e k r) st =
     (case eval rt r st of
        Inl x \<Rightarrow> Inl x
      | Inr (rv, st1) \<Rightarrow>
        (case eval rt e st1 of
           Inl x \<Rightarrow> Inl x
         | Inr (ev, st2) \<Rightarrow>
           (case eval rt k st2 of
              Inl x \<Rightarrow> Inl x
            | Inr (kv, st3) \<Rightarrow> from_rt st3 (rt_setitem rt ev kv rv (heap st3)))))"
| "exec_stmt rt (Expr e) st =
     (case eval rt e st of
        Inl x \<Rightarrow> Inl x
      | Inr (v, st1) \<Rightarrow> Inr ((), st1))"

text \<open>
  Statements run in order; the first one that raises ends the sequence, with the error
  and the state at that point. Nothing after it in the sequence runs.
\<close>

fun exec_stmts :: "('o, 'h, 'e) runtime \<Rightarrow> stmt list \<Rightarrow> ('o, 'h, 'e) state \<Rightarrow> ('o, 'h, 'e, unit) result" where
  "exec_stmts rt [] st = Inr ((), st)"
| "exec_stmts rt (s # ss) st =
     (case exec_stmt rt s st of
        Inl x \<Rightarrow> Inl x
      | Inr (u, st1) \<Rightarrow> exec_stmts rt ss st1)"

subsection \<open>Cells and the time magic\<close>

text \<open>
  A code cell is its statements, run in order. Seven cells of the notebook start with the
  line \<open>%%time\<close>: IPython's time magic compiles the rest of the cell and runs it inside
  \<open>try: ... except: self.shell.showtraceback(); return\<close>. So in a timed cell whatever
  the body raises, a library's exception or a \<open>NameError\<close> alike, ends the body at once,
  is shown as a traceback, and the cell itself ends normally: the cells after it still
  run. In a cell without the magic an exception ends the cell with that error, and the
  run of the notebook stops there. \<open>shown\<close> collects the tracebacks the magic showed.
  The magic also prints the measured times after a body that returned; being wall-clock
  readings they are left out of \<open>stdout\<close>.
\<close>

datatype cell = Plain "stmt list" | Timed "stmt list"

fun body :: "cell \<Rightarrow> stmt list" where
  "body (Plain ss) = ss"
| "body (Timed ss) = ss"

fun exec_cell :: "('o, 'h, 'e) runtime \<Rightarrow> cell \<Rightarrow> ('o, 'h, 'e) state \<Rightarrow> ('o, 'h, 'e, unit) result" where
  "exec_cell rt (Plain ss) st = exec_stmts rt ss st"
| "exec_cell rt (Timed ss) st =
     (case exec_stmts rt ss st of
        Inl (x, st1) \<Rightarrow> Inr ((), st1\<lparr>shown := shown st1 @ [x]\<rparr>)
      | Inr (u, st1) \<Rightarrow> Inr ((), st1))"

text \<open>The cells run from top to bottom; a cell that ends with an error ends the run.\<close>

fun exec_cells :: "('o, 'h, 'e) runtime \<Rightarrow> cell list \<Rightarrow> ('o, 'h, 'e) state \<Rightarrow> ('o, 'h, 'e, unit) result" where
  "exec_cells rt [] st = Inr ((), st)"
| "exec_cells rt (c # cs) st =
     (case exec_cell rt c st of
        Inl x \<Rightarrow> Inl x
      | Inr (u, st1) \<Rightarrow> exec_cells rt cs st1)"

subsection \<open>The cells of the notebook\<close>

text \<open>The cuDF example: load a CSV and print the average tip percentage by party size.\<close>

definition cell_cudf :: cell where
  "cell_cudf = Plain
     [Import ''cudf'',
      Assign ''url'' (Const (StrLit ''https://github.com/plotly/datasets/raw/master/tips.csv'')),
      Assign ''tips_df'' (Call (Attr (Var ''cudf'') ''read_csv'') [Var ''url''] []),
      SetItem (Var ''tips_df'') (Const (StrLit ''tip_percentage''))
        (BinOp Mult
           (BinOp Div (Subscript (Var ''tips_df'') (Const (StrLit ''tip'')))
                      (Subscript (Var ''tips_df'') (Const (StrLit ''total_bill''))))
           (Const (IntLit 100))),
      Expr (Call (Var ''print'')
        [Call (Attr (Attr (Call (Attr (Var ''tips_df'') ''groupby'') [Const (StrLit ''size'')] [])
                 ''tip_percentage'') ''mean'') [] []] [])]"

text \<open>
  The parameter cell. The sample count is the cell's one knob (\<open>2**19\<close> in the source,
  \<open>2**20\<close> on a larger GPU), so the cell takes the expression assigned to \<open>n_samples\<close>.
\<close>

definition cell_params :: "expr \<Rightarrow> cell" where
  "cell_params n = Plain
     [FromImport ''cuml'' [(''make_regression'', ''make_regression''), (''train_test_split'', ''train_test_split'')],
      FromImport ''cuml.linear_model'' [(''LinearRegression'', ''cuLinearRegression'')],
      FromImport ''cuml.metrics.regression'' [(''r2_score'', ''r2_score'')],
      FromImport ''sklearn.linear_model'' [(''LinearRegression'', ''skLinearRegression'')],
      Assign ''n_samples'' n,
      Assign ''n_features'' (Const (IntLit 399)),
      Assign ''random_state'' (Const (IntLit 23))]"

definition cell_generate :: cell where
  "cell_generate = Timed
     [AssignTuple [''X'', ''y'']
        (Call (Var ''make_regression'') []
           [(''n_samples'', Var ''n_samples''), (''n_features'', Var ''n_features''),
            (''random_state'', Var ''random_state'')]),
      Assign ''X'' (Call (Attr (Var ''cudf'') ''DataFrame'') [Var ''X''] []),
      Assign ''y'' (Subscript (Call (Attr (Var ''cudf'') ''DataFrame'') [Var ''y''] []) (Const (IntLit 0))),
      AssignTuple [''X_cudf'', ''X_cudf_test'', ''y_cudf'', ''y_cudf_test'']
        (Call (Var ''train_test_split'') [Var ''X'', Var ''y'']
           [(''test_size'', Const (DecLit 2 (-1))), (''random_state'', Var ''random_state'')])]"

definition cell_transfer :: cell where
  "cell_transfer = Plain
     [Assign ''X_train'' (Call (Attr (Var ''X_cudf'') ''to_pandas'') [] []),
      Assign ''X_test'' (Call (Attr (Var ''X_cudf_test'') ''to_pandas'') [] []),
      Assign ''y_train'' (Call (Attr (Var ''y_cudf'') ''to_pandas'') [] []),
      Assign ''y_test'' (Call (Attr (Var ''y_cudf_test'') ''to_pandas'') [] [])]"

definition cell_sk_fit :: cell where
  "cell_sk_fit = Timed
     [Assign ''ols_sk'' (Call (Var ''skLinearRegression'') []
        [(''fit_intercept'', Const (BoolLit True)), (''normalize'', Const (BoolLit True)),
         (''n_jobs'', Const (IntLit (-1)))]),
      Expr (Call (Attr (Var ''ols_sk'') ''fit'') [Var ''X_train'', Var ''y_train''] [])]"

definition cell_sk_predict :: cell where
  "cell_sk_predict = Timed
     [Assign ''predict_sk'' (Call (Attr (Var ''ols_sk'') ''predict'') [Var ''X_test''] [])]"

definition cell_sk_score :: cell where
  "cell_sk_score = Timed
     [Assign ''r2_score_sk'' (Call (Var ''r2_score'') [Var ''y_cudf_test'', Var ''predict_sk''] [])]"

definition cell_cuml_fit :: cell where
  "cell_cuml_fit = Timed
     [Assign ''ols_cuml'' (Call (Var ''cuLinearRegression'') []
        [(''fit_intercept'', Const (BoolLit True)), (''normalize'', Const (BoolLit True)),
         (''algorithm'', Const (StrLit ''eig''))]),
      Expr (Call (Attr (Var ''ols_cuml'') ''fit'') [Var ''X_cudf'', Var ''y_cudf''] [])]"

definition cell_cuml_predict :: cell where
  "cell_cuml_predict = Timed
     [Assign ''predict_cuml'' (Call (Attr (Var ''ols_cuml'') ''predict'') [Var ''X_cudf_test''] [])]"

definition cell_cuml_score :: cell where
  "cell_cuml_score = Timed
     [Assign ''r2_score_cuml'' (Call (Var ''r2_score'') [Var ''y_cudf_test'', Var ''predict_cuml''] [])]"

definition cell_compare :: cell where
  "cell_compare = Plain
     [Expr (Call (Var ''print'') [BinOp Mod (Const (StrLit ''R^2 score (SKL):  %s'')) (Var ''r2_score_sk'')] []),
      Expr (Call (Var ''print'') [BinOp Mod (Const (StrLit ''R^2 score (cuML): %s'')) (Var ''r2_score_cuml'')] [])]"

text \<open>
  The linear-regression workflow is the cells from the parameter cell to the comparison;
  the notebook runs the cuDF example first, which is also where \<open>cudf\<close> is imported.
\<close>

definition workflow :: "expr \<Rightarrow> cell list" where
  "workflow n =
     [cell_params n, cell_generate, cell_transfer, cell_sk_fit, cell_sk_predict,
      cell_sk_score, cell_cuml_fit, cell_cuml_predict, cell_cuml_score, cell_compare]"

definition notebook :: "expr \<Rightarrow> cell list" where
  "notebook n = cell_cudf # workflow n"

text \<open>The sample count as the source has it, \<open>2**19\<close>, and the larger \<open>2**20\<close>.\<close>

definition pow2 :: "int \<Rightarrow> expr" where
  "pow2 k = BinOp Pow (Const (IntLit 2)) (Const (IntLit k))"

definition n_samples_src :: expr where
  "n_samples_src = pow2 19"

text \<open>
  A fresh kernel: no name bound but the builtin \<open>print\<close>, nothing printed, no call made,
  nothing raised or shown.
\<close>

definition init :: "'h \<Rightarrow> ('o, 'h, 'e) state" where
  "init h = \<lparr>env = [''print'' \<mapsto> PrintFn], heap = h, stdout = [], log = [], raised = [], shown = []\<rparr>"

text \<open>Running the whole notebook in a fresh kernel, cell after cell.\<close>

definition run :: "('o, 'h, 'e) runtime \<Rightarrow> expr \<Rightarrow> 'h \<Rightarrow> ('o, 'h, 'e, unit) result" where
  "run rt n h = exec_cells rt (notebook n) (init h)"

subsection \<open>Outcomes and the calls a program makes\<close>

definition final :: "('o, 'h, 'e, 'a) result \<Rightarrow> ('o, 'h, 'e) state" where
  "final r = (case r of Inl (x, s) \<Rightarrow> s | Inr (v, s) \<Rightarrow> s)"

definition ok :: "('o, 'h, 'e, 'a) result \<Rightarrow> bool" where
  "ok r = (case r of Inl _ \<Rightarrow> False | Inr _ \<Rightarrow> True)"

fun callee :: "'o event \<Rightarrow> expr" where
  "callee (CallEv f fv vs ks) = f"

definition calls :: "('o, 'h, 'e) state \<Rightarrow> expr list" where
  "calls st = map callee (log st)"

text \<open>The callees of the calls in an expression, in the order the calls are made.\<close>

fun calls_of :: "expr \<Rightarrow> expr list"
and calls_of_args :: "expr list \<Rightarrow> expr list"
and calls_of_kwargs :: "(name \<times> expr) list \<Rightarrow> expr list"
where
  "calls_of (Var x) = []"
| "calls_of (Const l) = []"
| "calls_of (Attr e a) = calls_of e"
| "calls_of (Call f as ks) = calls_of f @ calls_of_args as @ calls_of_kwargs ks @ [f]"
| "calls_of (Subscript e k) = calls_of e @ calls_of k"
| "calls_of (BinOp b l r) = calls_of l @ calls_of r"
| "calls_of_args [] = []"
| "calls_of_args (a # as) = calls_of a @ calls_of_args as"
| "calls_of_kwargs [] = []"
| "calls_of_kwargs ((k, a) # ks) = calls_of a @ calls_of_kwargs ks"

fun stmt_calls :: "stmt \<Rightarrow> expr list" where
  "stmt_calls (Import m) = []"
| "stmt_calls (FromImport m ns) = []"
| "stmt_calls (Assign x e) = calls_of e"
| "stmt_calls (AssignTuple xs e) = calls_of e"
| "stmt_calls (SetItem e k r) = calls_of r @ calls_of e @ calls_of k"
| "stmt_calls (Expr e) = calls_of e"

text \<open>
  \<open>traced r st cs\<close>: the run from \<open>st\<close> with result \<open>r\<close> added to the log the calls
  \<open>cs\<close>, all of them if it returned and the first few of them if it raised.
\<close>

definition traced :: "('o, 'h, 'e, 'a) result \<Rightarrow> ('o, 'h, 'e) state \<Rightarrow> expr list \<Rightarrow> bool" where
  "traced r st cs =
     (\<exists>evs. log (final r) = log st @ evs \<and> prefix (map callee evs) cs \<and> (ok r \<longrightarrow> map callee evs = cs))"



subsection \<open>The names a program reads and writes\<close>

fun reads :: "expr \<Rightarrow> name list"
and reads_args :: "expr list \<Rightarrow> name list"
and reads_kwargs :: "(name \<times> expr) list \<Rightarrow> name list"
where
  "reads (Var x) = [x]"
| "reads (Const l) = []"
| "reads (Attr e a) = reads e"
| "reads (Call f as ks) = reads f @ reads_args as @ reads_kwargs ks"
| "reads (Subscript e k) = reads e @ reads k"
| "reads (BinOp b l r) = reads l @ reads r"
| "reads_args [] = []"
| "reads_args (a # as) = reads a @ reads_args as"
| "reads_kwargs [] = []"
| "reads_kwargs ((k, a) # ks) = reads a @ reads_kwargs ks"

fun stmt_reads :: "stmt \<Rightarrow> name list" where
  "stmt_reads (Import m) = []"
| "stmt_reads (FromImport m ns) = []"
| "stmt_reads (Assign x e) = reads e"
| "stmt_reads (AssignTuple xs e) = reads e"
| "stmt_reads (SetItem e k r) = reads r @ reads e @ reads k"
| "stmt_reads (Expr e) = reads e"

fun stmt_writes :: "stmt \<Rightarrow> name list" where
  "stmt_writes (Import m) = [m]"
| "stmt_writes (FromImport m ns) = map snd ns"
| "stmt_writes (Assign x e) = [x]"
| "stmt_writes (AssignTuple xs e) = xs"
| "stmt_writes (SetItem e k r) = []"
| "stmt_writes (Expr e) = []"

definition writes :: "stmt list \<Rightarrow> name list" where
  "writes ss = concat (map stmt_writes ss)"

definition all_reads :: "stmt list \<Rightarrow> name list" where
  "all_reads ss = concat (map stmt_reads ss)"

text \<open>
  \<open>frame X r st\<close>: the run of statements from \<open>st\<close> with result \<open>r\<close> rebound no name
  outside \<open>X\<close> and showed no traceback.
\<close>

definition frame :: "name set \<Rightarrow> ('o, 'h, 'e, 'a) result \<Rightarrow> ('o, 'h, 'e) state \<Rightarrow> bool" where
  "frame X r st = ((\<forall>x. x \<notin> X \<longrightarrow> env (final r) x = env st x) \<and> shown (final r) = shown st)"

text \<open>The state with one name rebound or unbound, and a result with its state changed.\<close>

definition with_name :: "name \<Rightarrow> 'o val option \<Rightarrow> ('o, 'h, 'e) state \<Rightarrow> ('o, 'h, 'e) state" where
  "with_name x w st = st\<lparr>env := (env st)(x := w)\<rparr>"

definition on_state :: "(('o, 'h, 'e) state \<Rightarrow> ('o, 'h, 'e) state) \<Rightarrow> ('o, 'h, 'e, 'a) result \<Rightarrow> ('o, 'h, 'e, 'a) result" where
  "on_state f r = (case r of Inl (x, s) \<Rightarrow> Inl (x, f s) | Inr (v, s) \<Rightarrow> Inr (v, f s))"

subsection \<open>Cells: calls, names and runs without a failure\<close>

definition stmts_of :: "cell list \<Rightarrow> stmt list" where
  "stmts_of cs = concat (map body cs)"

definition cells_calls :: "cell list \<Rightarrow> expr list" where
  "cells_calls cs = concat (map stmt_calls (stmts_of cs))"


fun raised_in :: "'e error list \<Rightarrow> 'e list" where
  "raised_in [] = []"
| "raised_in (Raised e # xs) = e # raised_in xs"
| "raised_in (x # xs) = raised_in xs"

definition clean :: "('o, 'h, 'e, 'a) result \<Rightarrow> bool" where
  "clean r = (ok r \<and> shown (final r) = [])"

text \<open>
  \<open>ctraced r st cs\<close>: the run of cells from \<open>st\<close> with result \<open>r\<close> added to the log some
  of the calls \<open>cs\<close>, in their order, and all of them if it returned with no new traceback.
\<close>

definition ctraced :: "('o, 'h, 'e, 'a) result \<Rightarrow> ('o, 'h, 'e) state \<Rightarrow> expr list \<Rightarrow> bool" where
  "ctraced r st cs =
     (\<exists>evs xs. log (final r) = log st @ evs \<and> shown (final r) = shown st @ xs \<and>
        subseq (map callee evs) cs \<and> (ok r \<and> xs = [] \<longrightarrow> map callee evs = cs))"

text \<open>\<open>returns rt fv vs ks h v\<close>: the call of \<open>fv\<close> with these arguments from \<open>h\<close> returns \<open>v\<close>.\<close>

definition returns :: "('o, 'h, 'e) runtime \<Rightarrow> 'o val \<Rightarrow> 'o val list \<Rightarrow> (name \<times> 'o val) list \<Rightarrow> 'h \<Rightarrow> 'o val \<Rightarrow> bool" where
  "returns rt fv vs ks h v =
     (case fv of PrintFn \<Rightarrow> v = NoneV | _ \<Rightarrow> (\<exists>h'. rt_call rt fv vs ks h = Inr (v, h')))"

subsection \<open>The lines of printed text\<close>

text \<open>The text split at its newlines; text after the last newline is a line too.\<close>

fun lines_from :: "string \<Rightarrow> string \<Rightarrow> string list" where
  "lines_from cur [] = (if cur = [] then [] else [cur])"
| "lines_from cur (c # cs) =
     (if c = newline then cur # lines_from [] cs else lines_from (cur @ [c]) cs)"

definition printed_lines :: "('o, 'h, 'e) state \<Rightarrow> string list" where
  "printed_lines st = lines_from [] (stdout st)"

text \<open>The state at the comparison cell in which the two scores read \<open>0.9\<close> and \<open>0.8\<close>.\<close>

definition demo_scores :: "(string, unit, string) state" where
  "demo_scores =
     \<lparr>env = [''print'' \<mapsto> PrintFn, ''r2_score_sk'' \<mapsto> ObjV ''0.9'', ''r2_score_cuml'' \<mapsto> ObjV ''0.8''],
      heap = (), stdout = [], log = [], raised = [], shown = []\<rparr>"

subsection \<open>The arithmetic of the tip percentage\<close>

text \<open>
  The cuDF cell computes \<open>tips_df['tip']/tips_df['total_bill']*100\<close>: cuDF divides and
  multiplies the columns element by element, as 64-bit floats. An entry of a column is a
  number, an infinity, a NaN, or missing. Division and multiplication follow IEEE 754 on
  the special values: a nonzero number divided by zero is an infinity, zero divided by
  zero is NaN, and nothing is raised; a missing entry gives a missing result. On numbers
  the arithmetic is exact here: rounding, overflow and the sign of zero are not modelled.
\<close>

datatype entry = Num rat | PInf | NInf | NaN | NA

definition is_num :: "entry \<Rightarrow> bool" where
  "is_num e = (case e of Num q \<Rightarrow> True | _ \<Rightarrow> False)"

text \<open>An infinity of the sign of \<open>q\<close>, for \<open>q\<close> other than zero.\<close>

definition inf_of :: "rat \<Rightarrow> entry" where
  "inf_of q = (if 0 < q then PInf else NInf)"

fun fdiv :: "entry \<Rightarrow> entry \<Rightarrow> entry" where
  "fdiv NA _ = NA"
| "fdiv _ NA = NA"
| "fdiv NaN _ = NaN"
| "fdiv _ NaN = NaN"
| "fdiv (Num a) (Num b) = (if b \<noteq> 0 then Num (a / b) else if a = 0 then NaN else inf_of a)"
| "fdiv (Num a) PInf = Num 0"
| "fdiv (Num a) NInf = Num 0"
| "fdiv PInf (Num b) = (if b < 0 then NInf else PInf)"
| "fdiv NInf (Num b) = (if b < 0 then PInf else NInf)"
| "fdiv PInf PInf = NaN"
| "fdiv PInf NInf = NaN"
| "fdiv NInf PInf = NaN"
| "fdiv NInf NInf = NaN"

fun fmul :: "entry \<Rightarrow> entry \<Rightarrow> entry" where
  "fmul NA _ = NA"
| "fmul _ NA = NA"
| "fmul NaN _ = NaN"
| "fmul _ NaN = NaN"
| "fmul (Num a) (Num b) = Num (a * b)"
| "fmul (Num a) PInf = (if a = 0 then NaN else inf_of a)"
| "fmul (Num a) NInf = (if a = 0 then NaN else inf_of (- a))"
| "fmul PInf (Num b) = (if b = 0 then NaN else inf_of b)"
| "fmul NInf (Num b) = (if b = 0 then NaN else inf_of (- b))"
| "fmul PInf PInf = PInf"
| "fmul PInf NInf = NInf"
| "fmul NInf PInf = NInf"
| "fmul NInf NInf = PInf"

text \<open>One row, and the new column: every row is computed the same way, with no test.\<close>

definition tip_percentage_row :: "entry \<Rightarrow> entry \<Rightarrow> entry" where
  "tip_percentage_row tip total_bill = fmul (fdiv tip total_bill) (Num 100)"

definition tip_percentage :: "entry list \<Rightarrow> entry list \<Rightarrow> entry list" where
  "tip_percentage tip total_bill = map2 tip_percentage_row tip total_bill"

subsection \<open>A small runtime to run the notebook on\<close>

text \<open>
  Library objects are the text of the expression that made them; the heap is empty. The
  call of the object \<open>bad\<close> and the import of the module \<open>bad\<close> raise, everything else
  returns.
\<close>

definition demo_call :: "string \<Rightarrow> string val \<Rightarrow> string val list \<Rightarrow> (name \<times> string val) list \<Rightarrow> unit \<Rightarrow> string + (string val \<times> unit)" where
  "demo_call bad fv vs ks h =
     (case fv of
        ObjV f \<Rightarrow>
          (if f = bad then Inl ''MemoryError''
           else if f = ''cuml.make_regression'' then Inr (TupleV [ObjV ''X0'', ObjV ''y0''], h)
           else if f = ''cuml.train_test_split'' then
             Inr (TupleV [ObjV ''Xtr'', ObjV ''Xte'', ObjV ''ytr'', ObjV ''yte''], h)
           else if f = ''cuml.metrics.regression.r2_score'' then
             (if vs = [ObjV ''yte'', ObjV ''sklearn.linear_model.LinearRegression().predict()'']
              then Inr (ObjV ''0.9'', h) else Inr (ObjV ''0.8'', h))
           else Inr (ObjV (f @ ''()''), h))
      | _ \<Rightarrow> Inl ''TypeError'')"

definition demo_rt :: "string \<Rightarrow> (string, unit, string) runtime" where
  "demo_rt bad =
     \<lparr>rt_import = (\<lambda>m h. if m = bad then Inl ''ImportError'' else Inr (ObjV m, h)),
      rt_getattr = (\<lambda>v a h. case v of ObjV s \<Rightarrow> Inr (ObjV (s @ ''.'' @ a), h) | _ \<Rightarrow> Inl ''AttributeError''),
      rt_call = demo_call bad,
      rt_getitem = (\<lambda>v k h. Inr (v, h)),
      rt_setitem = (\<lambda>v k r h. Inr ((), h)),
      rt_binop = (\<lambda>b x y h. Inr (x, h)),
      rt_str = (\<lambda>v h. case v of ObjV s \<Rightarrow> Inr (s, h) | _ \<Rightarrow> Inl ''TypeError'')\<rparr>"

text \<open>The same runtime, except that looking up the attribute \<open>fit\<close> raises.\<close>

definition demo_nofit :: "(string, unit, string) runtime" where
  "demo_nofit =
     (demo_rt [])\<lparr>rt_getattr :=
        (\<lambda>v a h. if a = ''fit'' then Inl ''AttributeError'' else rt_getattr (demo_rt []) v a h)\<rparr>"

section \<open>Properties\<close>

subsection \<open>The calls made by a run are the calls of the program text, in order\<close>

lemma traced_Inr: "traced (Inr (v, st')) st cs \<longleftrightarrow> (\<exists>evs. log st' = log st @ evs \<and> map callee evs = cs)"
  by (auto simp: traced_def final_def ok_def)

lemma traced_Inl: "traced (Inl (x, st')) st cs \<longleftrightarrow> (\<exists>evs. log st' = log st @ evs \<and> prefix (map callee evs) cs)"
  by (auto simp: traced_def final_def ok_def)

lemma traced_calls:
  assumes "traced r st cs"
  shows "\<exists>p. prefix p cs \<and> calls (final r) = calls st @ p \<and> (ok r \<longrightarrow> p = cs)"
  using assms by (auto simp: traced_def calls_def)

lemma traced_from_rt: "traced (from_rt st r) st []"
  by (auto simp: from_rt_def traced_Inr traced_Inl split: sum.splits)

lemma traced_seq:
  assumes "traced r st cs"
    and "\<And>v st1. r = Inr (v, st1) \<Longrightarrow> traced (k v st1) st1 ds"
  shows "traced (case r of Inl x \<Rightarrow> Inl x | Inr (v, st1) \<Rightarrow> k v st1) st (cs @ ds)"
proof (cases r)
  case (Inl a)
  then show ?thesis using assms(1) by (cases a) (auto simp: traced_Inl)
next
  case (Inr b)
  obtain v st1 where b: "b = (v, st1)" by (cases b)
  from assms(1) Inr b obtain evs1 where
    e1: "log st1 = log st @ evs1" "map callee evs1 = cs"
    by (auto simp: traced_Inr)
  from assms(2)[OF Inr[unfolded b]] obtain evs2 where
    e2: "log (final (k v st1)) = log st1 @ evs2" "prefix (map callee evs2) ds"
        "ok (k v st1) \<longrightarrow> map callee evs2 = ds"
    by (auto simp: traced_def)
  have "traced (k v st1) st (cs @ ds)"
    unfolding traced_def using e1 e2 by (intro exI[of _ "evs1 @ evs2"]) auto
  then show ?thesis by (simp add: Inr b)
qed

lemma traced_step:
  assumes "log st1 = log st @ evs" and "map callee evs = cs" and "traced r st1 []"
  shows "traced r st cs"
proof -
  from assms(3) have "log (final r) = log st1"
    by (auto simp: traced_def)
  then show ?thesis
    unfolding traced_def using assms(1,2) by (intro exI[of _ evs]) auto
qed

lemma traced_py_str: "traced (py_str rt v st) st []"
  by (simp add: py_str_def traced_from_rt)

lemma traced_str_format: "traced (str_format rt fmt v st) st []"
proof -
  have "traced (case py_str rt v st of Inl x \<Rightarrow> Inl x
         | Inr (s, st1) \<Rightarrow> (case subst_s fmt s of None \<Rightarrow> Inl (Unmodelled, st1) | Some r \<Rightarrow> Inr (StrV r, st1))) st ([] @ [])"
    by (rule traced_seq[OF traced_py_str]) (auto simp: traced_Inl traced_Inr split: option.splits)
  then show ?thesis
    by (cases v) (simp_all add: str_format_def traced_Inl)
qed

lemma traced_eval_binop: "traced (eval_binop rt b x y st) st []"
  by (auto simp: eval_binop_def traced_from_rt traced_str_format traced_Inr split: binop.splits val.splits)

lemma traced_strs: "traced (strs rt vs st) st []"
proof (induction vs arbitrary: st)
  case Nil
  then show ?case by (simp add: traced_Inr)
next
  case (Cons v vs)
  have "traced (case py_str rt v st of Inl x \<Rightarrow> Inl x
         | Inr (s, st1) \<Rightarrow> (case strs rt vs st1 of Inl x \<Rightarrow> Inl x | Inr (ss, st2) \<Rightarrow> Inr (s # ss, st2))) st ([] @ ([] @ []))"
    by (intro traced_seq traced_py_str Cons.IH) (auto simp: traced_Inr)
  then show ?case by simp
qed

lemma traced_py_print: "traced (py_print rt vs ks st) st []"
proof -
  have "traced (case strs rt vs st of Inl x \<Rightarrow> Inl x
         | Inr (ss, st1) \<Rightarrow> Inr (NoneV, st1\<lparr>stdout := stdout st1 @ join_sp ss @ [newline]\<rparr>)) st ([] @ [])"
    by (intro traced_seq traced_strs) (auto simp: traced_Inr)
  then show ?thesis by (auto simp: py_print_def traced_Inl)
qed

lemma traced_apply_fn: "traced (apply_fn rt f fv vs ks st) st [f]"
proof -
  let ?st1 = "st\<lparr>log := log st @ [CallEv f fv vs ks]\<rparr>"
  have c: "log ?st1 = log st @ [CallEv f fv vs ks]" "map callee [CallEv f fv vs ks] = [f]" by simp_all
  show ?thesis
    by (cases fv) (simp_all add: apply_fn_def Let_def traced_step[OF c] traced_py_print traced_from_rt)
qed

lemma traced_eval:
  "traced (eval rt e st) st (calls_of e)"
  "traced (eval_args rt as st) st (calls_of_args as)"
  "traced (eval_kwargs rt ks st) st (calls_of_kwargs ks)"
proof (induction rt e st and rt as st and rt ks st rule: eval_eval_args_eval_kwargs.induct)
  case (1 rt x st)
  then show ?case by (simp add: traced_Inl traced_Inr split: option.splits)
next
  case (2 rt l st)
  then show ?case by (simp add: traced_Inr)
next
  case (3 rt e a st)
  have "traced (eval rt (Attr e a) st) st (calls_of e @ [])"
    unfolding eval.simps by (intro traced_seq 3 traced_from_rt)
  then show ?case by simp
next
  case (4 rt f as ks st)
  show ?case
    unfolding eval.simps calls_of.simps
    by (intro traced_seq traced_apply_fn) (auto intro: 4)
next
  case (5 rt e k st)
  have "traced (eval rt (Subscript e k) st) st (calls_of e @ calls_of k @ [])"
    unfolding eval.simps by (intro traced_seq traced_from_rt) (auto intro: 5)
  then show ?case by simp
next
  case (6 rt b l r st)
  have "traced (eval rt (BinOp b l r) st) st (calls_of l @ calls_of r @ [])"
    unfolding eval.simps by (intro traced_seq traced_eval_binop) (auto intro: 6)
  then show ?case by simp
next
  case (7 rt st)
  then show ?case by (simp add: traced_Inr)
next
  case (8 rt a as st)
  have "traced (eval_args rt (a # as) st) st (calls_of a @ calls_of_args as @ [])"
    unfolding eval_args.simps by (intro traced_seq) (auto intro: 8 simp: traced_Inr)
  then show ?case by simp
next
  case (9 rt st)
  then show ?case by (simp add: traced_Inr)
next
  case (10 rt k a ks st)
  have "traced (eval_kwargs rt ((k, a) # ks) st) st (calls_of a @ calls_of_kwargs ks @ [])"
    unfolding eval_kwargs.simps by (intro traced_seq) (auto intro: 10 simp: traced_Inr)
  then show ?case by simp
qed

lemma log_bind [simp]: "log (bind x v st) = log st"
  by (simp add: bind_def)

lemma log_bind_all [simp]: "log (bind_all xs vs st) = log st"
  by (induction xs vs st rule: bind_all.induct) simp_all

lemma traced_import_from: "traced (import_from rt m ns st) st []"
proof (induction ns arbitrary: st)
  case Nil
  then show ?case by (simp add: traced_Inr)
next
  case (Cons p ns)
  obtain a b where p: "p = (a, b)" by (cases p)
  have "traced (import_from rt m ((a, b) # ns) st) st ([] @ [])"
    unfolding import_from.simps
    by (rule traced_seq[OF traced_from_rt]) (rule traced_step[where evs="[]", OF _ _ Cons.IH], simp_all)
  then show ?case by (simp add: p)
qed

lemma traced_exec_stmt: "traced (exec_stmt rt s st) st (stmt_calls s)"
proof (cases s)
  case (Import m)
  have "traced (exec_stmt rt (Import m) st) st ([] @ [])"
    unfolding exec_stmt.simps by (rule traced_seq[OF traced_from_rt]) (simp add: traced_Inr)
  then show ?thesis by (simp add: Import)
next
  case (FromImport m ns)
  have "traced (exec_stmt rt (FromImport m ns) st) st ([] @ [])"
    unfolding exec_stmt.simps by (rule traced_seq[OF traced_from_rt]) (rule traced_import_from)
  then show ?thesis by (simp add: FromImport)
next
  case (Assign x e)
  have "traced (exec_stmt rt (Assign x e) st) st (calls_of e @ [])"
    unfolding exec_stmt.simps by (rule traced_seq[OF traced_eval(1)]) (simp add: traced_Inr)
  then show ?thesis by (simp add: Assign)
next
  case (AssignTuple xs e)
  have "traced (exec_stmt rt (AssignTuple xs e) st) st (calls_of e @ [])"
    unfolding exec_stmt.simps
    by (rule traced_seq[OF traced_eval(1)]) (auto simp: traced_Inr traced_Inl split: val.splits)
  then show ?thesis by (simp add: AssignTuple)
next
  case (SetItem e k r)
  have "traced (exec_stmt rt (SetItem e k r) st) st (calls_of r @ calls_of e @ calls_of k @ [])"
    unfolding exec_stmt.simps by (intro traced_seq traced_eval(1) traced_from_rt)
  then show ?thesis by (simp add: SetItem)
next
  case (Expr e)
  have "traced (exec_stmt rt (Expr e) st) st (calls_of e @ [])"
    unfolding exec_stmt.simps by (rule traced_seq[OF traced_eval(1)]) (simp add: traced_Inr)
  then show ?thesis by (simp add: Expr)
qed

lemma traced_exec_stmts: "traced (exec_stmts rt ss st) st (concat (map stmt_calls ss))"
proof (induction ss arbitrary: st)
  case Nil
  then show ?case by (simp add: traced_Inr)
next
  case (Cons s ss)
  show ?case
    unfolding exec_stmts.simps list.map concat.simps
    by (rule traced_seq[OF traced_exec_stmt]) (rule Cons.IH)
qed

subsection \<open>Sequences of statements\<close>

lemma exec_stmts_append:
  "exec_stmts rt (ss @ ts) st =
     (case exec_stmts rt ss st of Inl x \<Rightarrow> Inl x | Inr (u, st1) \<Rightarrow> exec_stmts rt ts st1)"
  by (induction ss arbitrary: st) (auto split: sum.splits)

lemma exec_stmts_append_Inr:
  "exec_stmts rt (ss @ ts) st = Inr (u, st') \<longleftrightarrow>
     (\<exists>st1. exec_stmts rt ss st = Inr ((), st1) \<and> exec_stmts rt ts st1 = Inr (u, st'))"
  by (auto simp: exec_stmts_append split: sum.splits)

lemma exec_stmts_single:
  "exec_stmts rt [s] st = Inr (u, st') \<longleftrightarrow> exec_stmt rt s st = Inr ((), st')"
  by (auto split: sum.splits)

subsection \<open>Evaluation rebinds no name\<close>

lemma frame_Inr:
  "frame X (Inr (v, st')) st \<longleftrightarrow> (\<forall>x. x \<notin> X \<longrightarrow> env st' x = env st x) \<and> shown st' = shown st"
  by (simp add: frame_def final_def)

lemma frame_Inl:
  "frame X (Inl (e, st')) st \<longleftrightarrow> (\<forall>x. x \<notin> X \<longrightarrow> env st' x = env st x) \<and> shown st' = shown st"
  by (simp add: frame_def final_def)

lemma frame_mono: "frame X r st \<Longrightarrow> X \<subseteq> Y \<Longrightarrow> frame Y r st"
  by (auto simp: frame_def)

lemma frame_from_rt: "frame X (from_rt st r) st"
  by (auto simp: from_rt_def frame_Inr frame_Inl split: sum.splits)

lemma frame_seq:
  assumes "frame X r st"
    and "\<And>v st1. r = Inr (v, st1) \<Longrightarrow> frame X (k v st1) st1"
  shows "frame X (case r of Inl x \<Rightarrow> Inl x | Inr (v, st1) \<Rightarrow> k v st1) st"
proof (cases r)
  case (Inl a)
  then show ?thesis using assms(1) by (cases a) (auto simp: frame_def final_def)
next
  case (Inr b)
  obtain v st1 where b: "b = (v, st1)" by (cases b)
  from assms(2)[OF Inr[unfolded b]] assms(1) Inr b
  show ?thesis by (simp add: frame_def final_def)
qed

lemma frame_step:
  assumes "\<And>x. x \<notin> X \<Longrightarrow> env st1 x = env st x" and "shown st1 = shown st" and "frame X r st1"
  shows "frame X r st"
  using assms by (simp add: frame_def)

lemma frame_py_str: "frame X (py_str rt v st) st"
  by (simp add: py_str_def frame_from_rt)

lemma frame_str_format: "frame X (str_format rt fmt v st) st"
proof -
  have "frame X (case py_str rt v st of Inl x \<Rightarrow> Inl x
         | Inr (s, st1) \<Rightarrow> (case subst_s fmt s of None \<Rightarrow> Inl (Unmodelled, st1) | Some r \<Rightarrow> Inr (StrV r, st1))) st"
    by (rule frame_seq[OF frame_py_str]) (auto simp: frame_Inl frame_Inr split: option.splits)
  then show ?thesis
    by (cases v) (simp_all add: str_format_def frame_Inl)
qed

lemma frame_eval_binop: "frame X (eval_binop rt b x y st) st"
  by (auto simp: eval_binop_def frame_from_rt frame_str_format frame_Inr split: binop.splits val.splits)

lemma frame_strs: "frame X (strs rt vs st) st"
proof (induction vs arbitrary: st)
  case Nil
  then show ?case by (simp add: frame_Inr)
next
  case (Cons v vs)
  have "frame X (case py_str rt v st of Inl x \<Rightarrow> Inl x
         | Inr (s, st1) \<Rightarrow> (case strs rt vs st1 of Inl x \<Rightarrow> Inl x | Inr (ss, st2) \<Rightarrow> Inr (s # ss, st2))) st"
    by (intro frame_seq frame_py_str Cons.IH) (auto simp: frame_Inr)
  then show ?case by simp
qed

lemma frame_py_print: "frame X (py_print rt vs ks st) st"
proof -
  have "frame X (case strs rt vs st of Inl x \<Rightarrow> Inl x
         | Inr (ss, st1) \<Rightarrow> Inr (NoneV, st1\<lparr>stdout := stdout st1 @ join_sp ss @ [newline]\<rparr>)) st"
    by (intro frame_seq frame_strs) (auto simp: frame_Inr)
  then show ?thesis by (auto simp: py_print_def frame_Inl)
qed

lemma frame_apply_fn: "frame X (apply_fn rt f fv vs ks st) st"
proof -
  let ?st1 = "st\<lparr>log := log st @ [CallEv f fv vs ks]\<rparr>"
  have c: "\<And>x. x \<notin> X \<Longrightarrow> env ?st1 x = env st x" "shown ?st1 = shown st" by simp_all
  show ?thesis
    by (cases fv) (simp_all add: apply_fn_def Let_def frame_step[OF c] frame_py_print frame_from_rt)
qed

lemma frame_eval:
  "frame X (eval rt e st) st"
  "frame X (eval_args rt as st) st"
  "frame X (eval_kwargs rt ks st) st"
proof (induction rt e st and rt as st and rt ks st rule: eval_eval_args_eval_kwargs.induct)
  case (1 rt x st)
  then show ?case by (simp add: frame_Inl frame_Inr split: option.splits)
next
  case (2 rt l st)
  then show ?case by (simp add: frame_Inr)
next
  case (3 rt e a st)
  show ?case
    unfolding eval.simps by (intro frame_seq 3 frame_from_rt)
next
  case (4 rt f as ks st)
  show ?case
    unfolding eval.simps
    by (intro frame_seq frame_apply_fn) (auto intro: 4)
next
  case (5 rt e k st)
  show ?case
    unfolding eval.simps by (intro frame_seq frame_from_rt) (auto intro: 5)
next
  case (6 rt b l r st)
  show ?case
    unfolding eval.simps by (intro frame_seq frame_eval_binop) (auto intro: 6)
next
  case (7 rt st)
  then show ?case by (simp add: frame_Inr)
next
  case (8 rt a as st)
  show ?case
    unfolding eval_args.simps by (intro frame_seq) (auto intro: 8 simp: frame_Inr)
next
  case (9 rt st)
  then show ?case by (simp add: frame_Inr)
next
  case (10 rt k a ks st)
  show ?case
    unfolding eval_kwargs.simps by (intro frame_seq) (auto intro: 10 simp: frame_Inr)
qed

lemma eval_env: "eval rt e st = Inr (v, st') \<Longrightarrow> env st' = env st"
  using frame_eval(1)[of "{}" rt e st] by (auto simp: frame_Inr)

lemma eval_args_env: "eval_args rt as st = Inr (vs, st') \<Longrightarrow> env st' = env st"
  using frame_eval(2)[of "{}" rt as st] by (auto simp: frame_Inr)

lemma env_bind_other: "x \<noteq> y \<Longrightarrow> env (bind y v st) x = env st x"
  by (simp add: bind_def)

lemma env_bind_all_other: "x \<notin> set xs \<Longrightarrow> env (bind_all xs vs st) x = env st x"
  by (induction xs vs st rule: bind_all.induct) (auto simp: bind_def)

lemma shown_bind [simp]: "shown (bind x v st) = shown st"
  by (simp add: bind_def)

lemma shown_bind_all [simp]: "shown (bind_all xs vs st) = shown st"
  by (induction xs vs st rule: bind_all.induct) simp_all

lemma frame_import_from: "frame (snd ` set ns) (import_from rt m ns st) st"
proof (induction ns arbitrary: st)
  case Nil
  then show ?case by (simp add: frame_Inr)
next
  case (Cons p ns)
  obtain a b where p: "p = (a, b)" by (cases p)
  have "frame (snd ` set ((a, b) # ns)) (import_from rt m ((a, b) # ns) st) st"
    unfolding import_from.simps
    by (rule frame_seq[OF frame_from_rt])
       (rule frame_step[OF _ _ frame_mono[OF Cons.IH]], auto simp: bind_def)
  then show ?case by (simp add: p)
qed

lemma frame_exec_stmt: "frame (set (stmt_writes s)) (exec_stmt rt s st) st"
proof (cases s)
  case (Import m)
  show ?thesis
    unfolding Import exec_stmt.simps
    by (rule frame_seq[OF frame_from_rt]) (simp add: frame_Inr bind_def)
next
  case (FromImport m ns)
  show ?thesis
    unfolding FromImport exec_stmt.simps
    by (rule frame_seq[OF frame_from_rt]) (simp add: frame_import_from)
next
  case (Assign x e)
  show ?thesis
    unfolding Assign exec_stmt.simps
    by (rule frame_seq[OF frame_eval(1)]) (simp add: frame_Inr bind_def)
next
  case (AssignTuple xs e)
  show ?thesis
    unfolding AssignTuple exec_stmt.simps
    by (rule frame_seq[OF frame_eval(1)])
       (auto simp: frame_Inr frame_Inl env_bind_all_other split: val.splits)
next
  case (SetItem e k r)
  show ?thesis
    unfolding SetItem exec_stmt.simps by (intro frame_seq frame_eval(1) frame_from_rt)
next
  case (Expr e)
  show ?thesis
    unfolding Expr exec_stmt.simps by (rule frame_seq[OF frame_eval(1)]) (simp add: frame_Inr)
qed

lemma frame_exec_stmts: "frame (set (writes ss)) (exec_stmts rt ss st) st"
proof (induction ss arbitrary: st)
  case Nil
  then show ?case by (simp add: frame_Inr)
next
  case (Cons s ss)
  show ?case
    unfolding exec_stmts.simps
    by (rule frame_seq[OF frame_mono[OF frame_exec_stmt] frame_mono[OF Cons.IH]])
       (auto simp: writes_def)
qed

lemma exec_stmts_env:
  "exec_stmts rt ss st = Inr (u, st') \<Longrightarrow> x \<notin> set (writes ss) \<Longrightarrow> env st' x = env st x"
  using frame_exec_stmts[of ss rt st] by (auto simp: frame_Inr)

lemma exec_stmts_log:
  assumes "exec_stmts rt ss st = Inr (u, st')"
  shows "\<exists>evs. log st' = log st @ evs \<and> map callee evs = concat (map stmt_calls ss)"
  using traced_exec_stmts[of rt ss st] assms by (simp add: traced_Inr)

lemma exec_stmts_shown:
  "shown (final (exec_stmts rt ss st)) = shown st"
  using frame_exec_stmts[of ss rt st] by (simp add: frame_def)


subsection \<open>A name that is not read does not matter\<close>

lemma on_state_Inr [simp]: "on_state f (Inr (v, s)) = Inr (v, f s)"
  by (simp add: on_state_def)

lemma on_state_Inl [simp]: "on_state f (Inl (x, s)) = Inl (x, f s)"
  by (simp add: on_state_def)


lemma with_name_updates [simp]:
  "with_name x w st\<lparr>heap := h\<rparr> = with_name x w (st\<lparr>heap := h\<rparr>)"
  "with_name x w st\<lparr>raised := rs\<rparr> = with_name x w (st\<lparr>raised := rs\<rparr>)"
  "with_name x w st\<lparr>stdout := out\<rparr> = with_name x w (st\<lparr>stdout := out\<rparr>)"
  "with_name x w st\<lparr>log := l\<rparr> = with_name x w (st\<lparr>log := l\<rparr>)"
  "with_name x w st\<lparr>shown := xs\<rparr> = with_name x w (st\<lparr>shown := xs\<rparr>)"
  by (simp_all add: with_name_def)
















subsection \<open>The event a call leaves in the log\<close>

lemma eval_log:
  assumes "eval rt e st = Inr (v, st')"
  shows "\<exists>evs. log st' = log st @ evs \<and> map callee evs = calls_of e"
  using traced_eval(1)[of rt e st] assms by (simp add: traced_Inr)

lemma eval_quiet:
  assumes "eval rt e st = Inr (v, st')" and "calls_of e = []"
  shows "log st' = log st" and "env st' = env st"
  using eval_log[OF assms(1)] eval_env[OF assms(1)] assms(2) by auto

lemma eval_args_vars:
  "eval_args rt (map Var xs) st = Inr (vs, st') \<Longrightarrow> st' = st \<and> map (env st) xs = map Some vs"
  by (induction xs arbitrary: vs) (auto split: option.splits sum.splits)

lemma apply_fn_log:
  assumes "apply_fn rt f fv vs ks st = Inr (v, st')"
  shows "log st' = log st @ [CallEv f fv vs ks]" and "env st' = env st"
proof -
  let ?st1 = "st\<lparr>log := log st @ [CallEv f fv vs ks]\<rparr>"
  have r: "apply_fn rt f fv vs ks st =
        (case fv of PrintFn \<Rightarrow> py_print rt vs ks ?st1 | _ \<Rightarrow> from_rt ?st1 (rt_call rt fv vs ks (heap ?st1)))"
    by (simp add: apply_fn_def Let_def)
  have t: "traced (apply_fn rt f fv vs ks st) ?st1 []"
    unfolding r by (cases fv) (simp_all add: traced_py_print traced_from_rt)
  have f: "frame {} (apply_fn rt f fv vs ks st) ?st1"
    unfolding r by (cases fv) (simp_all add: frame_py_print frame_from_rt)
  from t assms show "log st' = log st @ [CallEv f fv vs ks]"
    by (simp add: traced_Inr)
  from f assms show "env st' = env st"
    by (auto simp: frame_Inr)
qed

lemma call_with_names:
  assumes "eval rt (Call f (map Var xs) []) st = Inr (v, st')" and "calls_of f = []"
  shows "\<exists>fv vs. map (env st) xs = map Some vs \<and> log st' = log st @ [CallEv f fv vs []] \<and>
           env st' = env st \<and> (\<forall>g. f = Var g \<longrightarrow> env st g = Some fv)"
proof -
  from assms(1) obtain fv st1 vs st2 where
    f: "eval rt f st = Inr (fv, st1)" and
    a: "eval_args rt (map Var xs) st1 = Inr (vs, st2)" and
    c: "apply_fn rt f fv vs [] st2 = Inr (v, st')"
    by (auto split: sum.splits)
  from eval_quiet[OF f assms(2)] have 1: "log st1 = log st" "env st1 = env st" .
  from eval_args_vars[OF a] have 2: "st2 = st1" "map (env st1) xs = map Some vs" by auto
  from apply_fn_log[OF c] have 3: "log st' = log st2 @ [CallEv f fv vs []]" "env st' = env st2" .
  have "\<forall>g. f = Var g \<longrightarrow> env st g = Some fv"
    using f by (auto split: option.splits)
  with 1 2 3 show ?thesis by auto
qed

lemma assign_call:
  assumes "exec_stmt rt (Assign x (Call f (map Var xs) [])) st = Inr (u, st')" and "calls_of f = []"
  shows "\<exists>fv vs v. map (env st) xs = map Some vs \<and> log st' = log st @ [CallEv f fv vs []] \<and>
           env st' = (env st)(x \<mapsto> v) \<and> (\<forall>g. f = Var g \<longrightarrow> env st g = Some fv)"
proof -
  from assms(1) obtain v st1 where
    e: "eval rt (Call f (map Var xs) []) st = Inr (v, st1)" and s: "st' = bind x v st1"
    by (auto split: sum.splits)
  from call_with_names[OF e assms(2)] s show ?thesis
    by (auto simp: bind_def)
qed

lemma expr_call:
  assumes "exec_stmt rt (Expr (Call f (map Var xs) [])) st = Inr (u, st')" and "calls_of f = []"
  shows "\<exists>fv vs. map (env st) xs = map Some vs \<and> log st' = log st @ [CallEv f fv vs []] \<and>
           env st' = env st \<and> (\<forall>g. f = Var g \<longrightarrow> env st g = Some fv)"
proof -
  from assms(1) obtain v where
    e: "eval rt (Call f (map Var xs) []) st = Inr (v, st')"
    by (auto split: sum.splits)
  from call_with_names[OF e assms(2)] show ?thesis .
qed




lemma call_in_run:
  assumes run: "exec_stmts rt (pre @ [s] @ post) st0 = Inr (u, fin)"
    and s: "s = Expr (Call f (map Var xs) []) \<or> s = Assign x (Call f (map Var xs) [])"
    and f: "calls_of f = []"
    and xs: "set xs \<inter> set (writes ([s] @ post)) = {}"
    and st0: "log st0 = []"
    and k: "length (concat (map stmt_calls pre)) = k"
  shows "\<exists>fv vs. map (env fin) xs = map Some vs \<and> log fin ! k = CallEv f fv vs []"
proof -
  from run obtain st1 where
    pre: "exec_stmts rt pre st0 = Inr ((), st1)" and
    rest: "exec_stmts rt ([s] @ post) st1 = Inr (u, fin)"
    unfolding exec_stmts_append_Inr[of rt pre] by blast
  from rest obtain st2 where
    st: "exec_stmt rt s st1 = Inr ((), st2)" and
    post: "exec_stmts rt post st2 = Inr (u, fin)"
    unfolding exec_stmts_append_Inr exec_stmts_single by blast
  from s st f obtain fv vs where
    c: "map (env st1) xs = map Some vs" "log st2 = log st1 @ [CallEv f fv vs []]"
    using expr_call[of rt f xs st1 "()" st2] assign_call[of rt x f xs st1 "()" st2] by blast
  from exec_stmts_log[OF pre] obtain l1 where
    l1: "log st1 = log st0 @ l1" "map callee l1 = concat (map stmt_calls pre)" by blast
  from exec_stmts_log[OF post] obtain l2 where
    l2: "log fin = log st2 @ l2" by blast
  have "length l1 = k"
    using arg_cong[OF l1(2), of length] k by simp
  then have "log fin ! k = CallEv f fv vs []"
    using l1(1) l2 c(2) st0 by (simp add: nth_append)
  moreover have "\<And>y. y \<in> set xs \<Longrightarrow> env fin y = env st1 y"
    using exec_stmts_env[OF rest] xs by blast
  then have "map (env fin) xs = map (env st1) xs"
    by simp
  ultimately show ?thesis using c(1) by auto
qed

lemma assign_in_run:
  assumes run: "exec_stmts rt (pre @ [Assign x e] @ post) st0 = Inr (u, fin)"
    and x: "x \<notin> set (writes post)"
  shows "\<exists>v. env fin x = Some v"
proof -
  from run obtain st1 st2 where
    st: "exec_stmt rt (Assign x e) st1 = Inr ((), st2)" and
    post: "exec_stmts rt post st2 = Inr (u, fin)"
    unfolding exec_stmts_append_Inr exec_stmts_single by blast
  from st obtain v where "env st2 x = Some v"
    by (auto simp: bind_def split: sum.splits)
  with exec_stmts_env[OF post x] show ?thesis by simp
qed


text \<open>A method call without arguments, as in \<open>x = d.a()\<close>.\<close>

lemma apply_fn_returns:
  assumes "apply_fn rt f fv vs ks st = Inr (v, st')"
  shows "returns rt fv vs ks (heap st) v"
  using assms
  by (cases fv)
     (auto simp: apply_fn_def Let_def returns_def py_print_def from_rt_def split: sum.splits if_splits)

lemma method_assign:
  assumes "exec_stmt rt (Assign x (Call (Attr (Var d) a) [] [])) st = Inr (u, st')"
  shows "\<exists>dv mv h2 v. env st d = Some dv \<and> rt_getattr rt dv a (heap st) = Inr (mv, h2) \<and>
           log st' = log st @ [CallEv (Attr (Var d) a) mv [] []] \<and>
           returns rt mv [] [] h2 v \<and> env st' = (env st)(x \<mapsto> v)"
proof -
  from assms obtain dv mv h2 v st2 where
    d: "env st d = Some dv" and
    m: "rt_getattr rt dv a (heap st) = Inr (mv, h2)" and
    c: "apply_fn rt (Attr (Var d) a) mv [] [] (st\<lparr>heap := h2\<rparr>) = Inr (v, st2)" and
    s: "st' = bind x v st2"
    by (auto simp: from_rt_def split: sum.splits option.splits)
  from apply_fn_log[OF c] apply_fn_returns[OF c] d m s show ?thesis
    by (auto simp: bind_def)
qed

lemma method_in_run:
  assumes run: "exec_stmts rt (pre @ [Assign x (Call (Attr (Var d) a) [] [])] @ post) st0 = Inr (u, fin)"
    and d: "d \<notin> set (writes post)" "d \<noteq> x"
    and x: "x \<notin> set (writes post)"
    and st0: "log st0 = []"
    and k: "length (concat (map stmt_calls pre)) = k"
  shows "\<exists>dv mv h1 h2 v. env fin d = Some dv \<and> rt_getattr rt dv a h1 = Inr (mv, h2) \<and>
           log fin ! k = CallEv (Attr (Var d) a) mv [] [] \<and> returns rt mv [] [] h2 v \<and>
           env fin x = Some v"
proof -
  from run obtain st1 st2 where
    pre: "exec_stmts rt pre st0 = Inr ((), st1)" and
    st: "exec_stmt rt (Assign x (Call (Attr (Var d) a) [] [])) st1 = Inr ((), st2)" and
    post: "exec_stmts rt post st2 = Inr (u, fin)"
    unfolding exec_stmts_append_Inr exec_stmts_single by blast
  from method_assign[OF st] obtain dv mv h2 v where
    c: "env st1 d = Some dv" "rt_getattr rt dv a (heap st1) = Inr (mv, h2)"
       "log st2 = log st1 @ [CallEv (Attr (Var d) a) mv [] []]"
       "returns rt mv [] [] h2 v" "env st2 = (env st1)(x \<mapsto> v)"
    by blast
  from exec_stmts_log[OF pre] obtain l1 where
    l1: "log st1 = log st0 @ l1" "map callee l1 = concat (map stmt_calls pre)" by blast
  from exec_stmts_log[OF post] obtain l2 where
    l2: "log fin = log st2 @ l2" by blast
  have "length l1 = k"
    using arg_cong[OF l1(2), of length] k by simp
  then have 1: "log fin ! k = CallEv (Attr (Var d) a) mv [] []"
    using l1(1) l2 c(3) st0 by (simp add: nth_append)
  have 2: "env fin d = Some dv"
    using exec_stmts_env[OF post d(1)] c(1) c(5) d(2) by simp
  have 3: "env fin x = Some v"
    using exec_stmts_env[OF post x] c(5) by simp
  from 1 2 3 c(2) c(4) show ?thesis by blast
qed

subsection \<open>An exception of the runtime ends a sequence of statements, unchanged\<close>













lemma raised_bind [simp]: "raised (bind x v st) = raised st"
  by (simp add: bind_def)

lemma raised_bind_all [simp]: "raised (bind_all xs vs st) = raised st"
  by (induction xs vs st rule: bind_all.induct) simp_all




subsection \<open>Runs of cells\<close>



lemma exec_cells_Cons_Inr:
  "exec_cells rt (c # cs) st = Inr (u, st') \<longleftrightarrow>
     (\<exists>st1. exec_cell rt c st = Inr ((), st1) \<and> exec_cells rt cs st1 = Inr (u, st'))"
  by (auto split: sum.splits)


lemma exec_cell_Plain_Inr:
  "exec_cell rt c st = Inr (u, st') \<Longrightarrow> c = Plain ss \<Longrightarrow> exec_stmts rt ss st = Inr ((), st')"
  by simp

text \<open>A timed cell always returns: with the state its body returned, or with a traceback.\<close>

lemma exec_cell_Timed:
  "exec_cell rt (Timed ss) st = Inr (u, st') \<longleftrightarrow>
     exec_stmts rt ss st = Inr ((), st') \<or>
     (\<exists>x st1. exec_stmts rt ss st = Inl (x, st1) \<and> st' = st1\<lparr>shown := shown st1 @ [x]\<rparr>)"
  by (auto split: sum.splits)

lemma ctraced_Inr:
  "ctraced (Inr (v, st')) st cs \<longleftrightarrow>
     (\<exists>evs xs. log st' = log st @ evs \<and> shown st' = shown st @ xs \<and>
        subseq (map callee evs) cs \<and> (xs = [] \<longrightarrow> map callee evs = cs))"
  by (auto simp: ctraced_def final_def ok_def)

lemma ctraced_Inl:
  "ctraced (Inl (x, st')) st cs \<longleftrightarrow>
     (\<exists>evs xs. log st' = log st @ evs \<and> shown st' = shown st @ xs \<and> subseq (map callee evs) cs)"
  by (auto simp: ctraced_def final_def ok_def)

lemma traced_ctraced:
  assumes "traced r st cs" and "shown (final r) = shown st"
  shows "ctraced r st cs"
proof -
  from assms(1) obtain evs where
    "log (final r) = log st @ evs" "prefix (map callee evs) cs" "ok r \<longrightarrow> map callee evs = cs"
    by (auto simp: traced_def)
  with assms(2) show ?thesis
    unfolding ctraced_def
    by (intro exI[of _ evs] exI[of _ "[]"]) (auto simp: prefix_imp_subseq)
qed

lemma ctraced_cell: "ctraced (exec_cell rt c st) st (concat (map stmt_calls (body c)))"
proof (cases c)
  case (Plain ss)
  then show ?thesis
    using traced_ctraced[OF traced_exec_stmts[of rt ss st] exec_stmts_shown[of rt ss st]] by simp
next
  case (Timed ss)
  show ?thesis
  proof (cases "exec_stmts rt ss st")
    case (Inl a)
    obtain x st1 where a: "a = (x, st1)" by (cases a)
    from traced_exec_stmts[of rt ss st] exec_stmts_shown[of rt ss st] Inl a
    obtain evs where e: "log st1 = log st @ evs" "prefix (map callee evs) (concat (map stmt_calls ss))"
      "shown st1 = shown st"
      by (auto simp: traced_Inl final_def)
    have "ctraced (Inr ((), st1\<lparr>shown := shown st1 @ [x]\<rparr>)) st (concat (map stmt_calls ss))"
      unfolding ctraced_Inr
      by (intro exI[of _ evs] exI[of _ "[x]"]) (simp add: e prefix_imp_subseq)
    then show ?thesis by (simp add: Timed Inl a)
  next
    case (Inr b)
    obtain u st1 where b: "b = (u, st1)" by (cases b)
    from traced_exec_stmts[of rt ss st] exec_stmts_shown[of rt ss st] Inr b
    obtain evs where e: "log st1 = log st @ evs" "map callee evs = concat (map stmt_calls ss)"
      "shown st1 = shown st"
      by (auto simp: traced_Inr final_def)
    have "ctraced (Inr ((), st1)) st (concat (map stmt_calls ss))"
      unfolding ctraced_Inr
      by (intro exI[of _ evs] exI[of _ "[]"]) (simp add: e)
    then show ?thesis by (simp add: Timed Inr b)
  qed
qed

lemma ctraced_seq:
  assumes "ctraced r st cs"
    and "\<And>v st1. r = Inr (v, st1) \<Longrightarrow> ctraced (k v st1) st1 ds"
  shows "ctraced (case r of Inl x \<Rightarrow> Inl x | Inr (v, st1) \<Rightarrow> k v st1) st (cs @ ds)"
proof (cases r)
  case (Inl a)
  obtain x st1 where a: "a = (x, st1)" by (cases a)
  from assms(1)[unfolded Inl a ctraced_Inl] obtain evs xs where
    e: "log st1 = log st @ evs" "shown st1 = shown st @ xs" "subseq (map callee evs) cs"
    by blast
  from e(3) have "subseq (map callee evs) (cs @ ds)"
    by (rule list_emb_prefix)
  with e(1,2) have "ctraced (Inl (x, st1)) st (cs @ ds)"
    unfolding ctraced_Inl by blast
  then show ?thesis by (simp add: Inl a)
next
  case (Inr b)
  obtain v st1 where b: "b = (v, st1)" by (cases b)
  from assms(1)[unfolded Inr b ctraced_Inr] obtain evs1 xs1 where
    e1: "log st1 = log st @ evs1" "shown st1 = shown st @ xs1" "subseq (map callee evs1) cs"
        "xs1 = [] \<longrightarrow> map callee evs1 = cs"
    by blast
  from assms(2)[OF Inr[unfolded b], unfolded ctraced_def] obtain evs2 xs2 where
    e2: "log (final (k v st1)) = log st1 @ evs2" "shown (final (k v st1)) = shown st1 @ xs2"
        "subseq (map callee evs2) ds"
        "ok (k v st1) \<and> xs2 = [] \<longrightarrow> map callee evs2 = ds"
    by blast
  have 1: "log (final (k v st1)) = log st @ (evs1 @ evs2)"
    using e1(1) e2(1) by simp
  have 2: "shown (final (k v st1)) = shown st @ (xs1 @ xs2)"
    using e1(2) e2(2) by simp
  have 3: "subseq (map callee (evs1 @ evs2)) (cs @ ds)"
    using list_emb_append_mono[OF e1(3) e2(3)] by simp
  have 4: "ok (k v st1) \<and> xs1 @ xs2 = [] \<longrightarrow> map callee (evs1 @ evs2) = cs @ ds"
    using e1(4) e2(4) by simp
  have "ctraced (k v st1) st (cs @ ds)"
    unfolding ctraced_def using 1 2 3 4 by blast
  then show ?thesis by (simp add: Inr b)
qed

lemma ctraced_cells: "ctraced (exec_cells rt cs st) st (cells_calls cs)"
proof (induction cs arbitrary: st)
  case Nil
  then show ?case by (simp add: ctraced_Inr cells_calls_def stmts_of_def)
next
  case (Cons c cs)
  have "cells_calls (c # cs) = concat (map stmt_calls (body c)) @ cells_calls cs"
    by (simp add: cells_calls_def stmts_of_def)
  then show ?case
    unfolding exec_cells.simps
    by (simp only:) (rule ctraced_seq[OF ctraced_cell Cons.IH])
qed


lemma ctraced_shown:
  assumes "ctraced r st cs"
  shows "\<exists>xs. shown (final r) = shown st @ xs"
  using assms by (auto simp: ctraced_def)

subsection \<open>Cells rebind only the names their statements write\<close>






subsection \<open>Every exception is shown or ends the run\<close>

lemma raised_in_append [simp]: "raised_in (xs @ ys) = raised_in xs @ raised_in ys"
  by (induction xs rule: raised_in.induct) simp_all





subsection \<open>A name that is not read does not matter to cells either\<close>



subsection \<open>A run with no traceback is the run of the statements in a row\<close>

lemma exec_cell_clean:
  assumes "exec_cell rt c st = Inr (u, st')" and "shown st' = shown st"
  shows "exec_stmts rt (body c) st = Inr ((), st')"
proof (cases c)
  case (Plain ss)
  with assms show ?thesis by simp
next
  case (Timed ss)
  show ?thesis
  proof (cases "exec_stmts rt ss st")
    case (Inl a)
    obtain x st1 where a: "a = (x, st1)" by (cases a)
    from exec_stmts_shown[of rt ss st] Inl a have "shown st1 = shown st"
      by (simp add: final_def)
    with assms Timed Inl a show ?thesis by auto
  next
    case (Inr b)
    with assms Timed show ?thesis by (cases b) auto
  qed
qed

lemma exec_cells_clean:
  assumes "exec_cells rt cs st = Inr (u, st')" and "shown st' = shown st"
  shows "exec_stmts rt (stmts_of cs) st = Inr ((), st')"
  using assms
proof (induction cs arbitrary: st)
  case Nil
  then show ?case by (simp add: stmts_of_def)
next
  case (Cons c cs)
  from Cons.prems(1) obtain st1 where
    c: "exec_cell rt c st = Inr ((), st1)" and cs: "exec_cells rt cs st1 = Inr (u, st')"
    unfolding exec_cells_Cons_Inr by blast
  from ctraced_shown[OF ctraced_cell[of rt c st]] c obtain xs where xs: "shown st1 = shown st @ xs"
    by (auto simp: final_def)
  from ctraced_shown[OF ctraced_cells[of rt cs st1]] cs obtain ys where ys: "shown st' = shown st1 @ ys"
    by (auto simp: final_def)
  from xs ys Cons.prems(2) have e: "shown st1 = shown st" "shown st' = shown st1"
    by simp_all
  from exec_cell_clean[OF c e(1)] Cons.IH[OF cs e(2)] show ?case
    by (simp add: stmts_of_def exec_stmts_append)
qed

lemma clean_run:
  assumes "clean (run rt n h)"
  shows "exec_stmts rt (stmts_of (notebook n)) (init h) = Inr ((), final (run rt n h))"
proof -
  from assms obtain u fin where r: "run rt n h = Inr (u, fin)" and s: "shown fin = []"
    by (cases "run rt n h") (auto simp: clean_def ok_def final_def)
  from exec_cells_clean[OF r[unfolded run_def]] s have
    "exec_stmts rt (stmts_of (notebook n)) (init h) = Inr ((), fin)"
    by (simp add: init_def)
  with r show ?thesis by (simp add: final_def)
qed

subsection \<open>The calls of the notebook\<close>

lemmas cell_defs = cell_cudf_def cell_params_def cell_generate_def cell_transfer_def
  cell_sk_fit_def cell_sk_predict_def cell_sk_score_def cell_cuml_fit_def cell_cuml_predict_def
  cell_cuml_score_def cell_compare_def

lemmas sem_defs = run_def init_def from_rt_def bind_def apply_fn_def py_print_def py_str_def
  str_of_def eval_binop_def str_format_def

lemma calls_init [simp]: "calls (init h) = []"
  by (simp add: calls_def init_def)

lemma notebook_calls:
  "calls_of n = [] \<Longrightarrow>
   cells_calls (notebook n) =
     [Attr (Var ''cudf'') ''read_csv'',
      Attr (Var ''tips_df'') ''groupby'',
      Attr (Attr (Call (Attr (Var ''tips_df'') ''groupby'') [Const (StrLit ''size'')] []) ''tip_percentage'') ''mean'',
      Var ''print'',
      Var ''make_regression'',
      Attr (Var ''cudf'') ''DataFrame'',
      Attr (Var ''cudf'') ''DataFrame'',
      Var ''train_test_split'',
      Attr (Var ''X_cudf'') ''to_pandas'',
      Attr (Var ''X_cudf_test'') ''to_pandas'',
      Attr (Var ''y_cudf'') ''to_pandas'',
      Attr (Var ''y_cudf_test'') ''to_pandas'',
      Var ''skLinearRegression'',
      Attr (Var ''ols_sk'') ''fit'',
      Attr (Var ''ols_sk'') ''predict'',
      Var ''r2_score'',
      Var ''cuLinearRegression'',
      Attr (Var ''ols_cuml'') ''fit'',
      Attr (Var ''ols_cuml'') ''predict'',
      Var ''r2_score'',
      Var ''print'',
      Var ''print'']"
  by (simp add: cells_calls_def stmts_of_def notebook_def workflow_def cell_defs)

lemma run_calls:
  "subseq (calls (final (run rt n h))) (cells_calls (notebook n))"
  "clean (run rt n h) \<Longrightarrow> calls (final (run rt n h)) = cells_calls (notebook n)"
proof -
  from ctraced_cells[of rt "notebook n" "init h"] obtain evs xs where
    e: "log (final (run rt n h)) = evs" "shown (final (run rt n h)) = xs"
       "subseq (map callee evs) (cells_calls (notebook n))"
       "ok (run rt n h) \<and> xs = [] \<longrightarrow> map callee evs = cells_calls (notebook n)"
    unfolding ctraced_def run_def by (auto simp: init_def)
  from e(1,3) show "subseq (calls (final (run rt n h))) (cells_calls (notebook n))"
    by (simp add: calls_def)
  from e(1,2,4) show "clean (run rt n h) \<Longrightarrow> calls (final (run rt n h)) = cells_calls (notebook n)"
    by (simp add: calls_def clean_def)
qed

lemma pow2_calls [simp]: "calls_of (pow2 k) = []"
  by (simp add: pow2_def)

lemma demo_run:
  "0 \<le> k \<Longrightarrow> \<exists>st. run (demo_rt []) (pow2 k) () = Inr ((), st) \<and> shown st = []"
  by (simp add: notebook_def workflow_def cell_defs sem_defs pow2_def demo_rt_def demo_call_def)

lemma demo_clean: "0 \<le> k \<Longrightarrow> clean (run (demo_rt []) (pow2 k) ())"
  using demo_run[of k] by (auto simp: clean_def ok_def final_def)


text \<open>
  That a run returns does not mean that every call was made. With a runtime in which
  looking up \<open>fit\<close> raises, both fitting cells fail; the time magic shows the two
  tracebacks, and the run goes on and returns, with 20 of the 22 calls made.
\<close>

lemma skipped_fit_returns:
  "\<exists>st. run demo_nofit (pow2 19) () = Inr ((), st) \<and>
        shown st = [Raised ''AttributeError'', Raised ''AttributeError''] \<and>
        length (calls st) = 20 \<and>
        Attr (Var ''ols_sk'') ''fit'' \<notin> set (calls st) \<and>
        Attr (Var ''ols_cuml'') ''fit'' \<notin> set (calls st)"
  by (simp add: notebook_def workflow_def cell_defs sem_defs pow2_def demo_nofit_def demo_rt_def
      demo_call_def calls_def)

subsection \<open>The order of the workflow's steps\<close>

text \<open>
  Claim C7. The notebook performs its steps in the stated order. The calls of the
  notebook are, in this order: the cuDF example; data generation (\<open>make_regression\<close> and
  the two conversions to data frames); the train/test split; the four device-to-host
  transfers; construction, fit, predict and score of the scikit-learn model; construction,
  fit, predict and score of the cuML model; and the two prints of the comparison. Every
  run makes its calls in this order: what it calls is a subsequence of the list, because
  a failure skips the rest of its cell (and, outside a \<open>%%time\<close> cell, the rest of the
  notebook) and never reorders anything. A clean run, one that returns with no traceback
  shown, makes all of the calls. The one assumption is that the expression assigned to
  \<open>n_samples\<close> makes no call itself, as \<open>2**19\<close> does not.
\<close>

theorem workflow_order:
  assumes "calls_of n = []"
  shows "subseq (calls (final (run rt n h)))
           [Attr (Var ''cudf'') ''read_csv'',
            Attr (Var ''tips_df'') ''groupby'',
            Attr (Attr (Call (Attr (Var ''tips_df'') ''groupby'') [Const (StrLit ''size'')] []) ''tip_percentage'') ''mean'',
            Var ''print'',
            Var ''make_regression'',
            Attr (Var ''cudf'') ''DataFrame'',
            Attr (Var ''cudf'') ''DataFrame'',
            Var ''train_test_split'',
            Attr (Var ''X_cudf'') ''to_pandas'',
            Attr (Var ''X_cudf_test'') ''to_pandas'',
            Attr (Var ''y_cudf'') ''to_pandas'',
            Attr (Var ''y_cudf_test'') ''to_pandas'',
            Var ''skLinearRegression'',
            Attr (Var ''ols_sk'') ''fit'',
            Attr (Var ''ols_sk'') ''predict'',
            Var ''r2_score'',
            Var ''cuLinearRegression'',
            Attr (Var ''ols_cuml'') ''fit'',
            Attr (Var ''ols_cuml'') ''predict'',
            Var ''r2_score'',
            Var ''print'',
            Var ''print'']
       \<and> (clean (run rt n h) \<longrightarrow>
            calls (final (run rt n h)) =
              [Attr (Var ''cudf'') ''read_csv'',
               Attr (Var ''tips_df'') ''groupby'',
               Attr (Attr (Call (Attr (Var ''tips_df'') ''groupby'') [Const (StrLit ''size'')] []) ''tip_percentage'') ''mean'',
               Var ''print'',
               Var ''make_regression'',
               Attr (Var ''cudf'') ''DataFrame'',
               Attr (Var ''cudf'') ''DataFrame'',
               Var ''train_test_split'',
               Attr (Var ''X_cudf'') ''to_pandas'',
               Attr (Var ''X_cudf_test'') ''to_pandas'',
               Attr (Var ''y_cudf'') ''to_pandas'',
               Attr (Var ''y_cudf_test'') ''to_pandas'',
               Var ''skLinearRegression'',
               Attr (Var ''ols_sk'') ''fit'',
               Attr (Var ''ols_sk'') ''predict'',
               Var ''r2_score'',
               Var ''cuLinearRegression'',
               Attr (Var ''ols_cuml'') ''fit'',
               Attr (Var ''ols_cuml'') ''predict'',
               Var ''r2_score'',
               Var ''print'',
               Var ''print''])"
  using run_calls[of rt n h] unfolding notebook_calls[OF assms] by blast

theorem workflow_order_witness:
  "calls_of (pow2 19) = [] \<and> clean (run (demo_rt []) (pow2 19) ()) \<and>
   calls (final (run (demo_rt []) (pow2 19) ())) =
     [Attr (Var ''cudf'') ''read_csv'',
      Attr (Var ''tips_df'') ''groupby'',
      Attr (Attr (Call (Attr (Var ''tips_df'') ''groupby'') [Const (StrLit ''size'')] []) ''tip_percentage'') ''mean'',
      Var ''print'',
      Var ''make_regression'',
      Attr (Var ''cudf'') ''DataFrame'',
      Attr (Var ''cudf'') ''DataFrame'',
      Var ''train_test_split'',
      Attr (Var ''X_cudf'') ''to_pandas'',
      Attr (Var ''X_cudf_test'') ''to_pandas'',
      Attr (Var ''y_cudf'') ''to_pandas'',
      Attr (Var ''y_cudf_test'') ''to_pandas'',
      Var ''skLinearRegression'',
      Attr (Var ''ols_sk'') ''fit'',
      Attr (Var ''ols_sk'') ''predict'',
      Var ''r2_score'',
      Var ''cuLinearRegression'',
      Attr (Var ''ols_cuml'') ''fit'',
      Attr (Var ''ols_cuml'') ''predict'',
      Var ''r2_score'',
      Var ''print'',
      Var ''print'']"
proof -
  have c: "calls_of (pow2 19) = []" by simp
  have k: "clean (run (demo_rt []) (pow2 19) ())" by (rule demo_clean) simp
  show ?thesis
    using c k workflow_order[OF c, of "demo_rt []" "()"] by blast
qed

subsection \<open>The sample count does not change the code path\<close>

text \<open>
  Claim C5. For any two sample counts, in particular \<open>2**19\<close> and \<open>2**20\<close>, the notebook
  makes the same sequence of calls, whatever the libraries return and whatever state they
  are in: two clean runs have made the same calls in the same order, and any run at one
  sample count has made, in the same order, calls that a clean run at the other makes
  too. Nothing in the sequence depends on \<open>n_samples\<close>; only the values passed differ. A
  run is clean when it returns and the time magic had no traceback to show. That the run
  returns is not enough: a \<open>%%time\<close> cell ends normally also when its body failed, so a
  run can return although the failed body skipped a call.
\<close>

theorem same_call_sequence:
  assumes "calls_of n = []" and "calls_of m = []"
  shows "(clean (run rt n h) \<and> clean (run rt' m h') \<longrightarrow>
            calls (final (run rt n h)) = calls (final (run rt' m h'))) \<and>
         (clean (run rt' m h') \<longrightarrow>
            subseq (calls (final (run rt n h))) (calls (final (run rt' m h'))))"
proof -
  have cs: "cells_calls (notebook n) = cells_calls (notebook m)"
    using assms by (simp add: notebook_calls)
  from run_calls[of rt n h] run_calls[of rt' m h'] show ?thesis
    unfolding cs by auto
qed

theorem same_call_sequence_witness:
  "calls_of (pow2 19) = [] \<and> calls_of (pow2 20) = [] \<and>
   clean (run (demo_rt []) (pow2 19) ()) \<and> clean (run (demo_rt []) (pow2 20) ()) \<and>
   calls (final (run (demo_rt []) (pow2 19) ())) = calls (final (run (demo_rt []) (pow2 20) ()))"
proof -
  have c: "calls_of (pow2 19) = []" "calls_of (pow2 20) = []" by simp_all
  have k: "clean (run (demo_rt []) (pow2 19) ())" "clean (run (demo_rt []) (pow2 20) ())"
    by (rule demo_clean, simp)+
  show ?thesis
    using c k same_call_sequence[OF c, of "demo_rt []" "()" "demo_rt []" "()"] by blast
qed

subsection \<open>Which failures reach the caller\<close>







subsection \<open>The printed comparison\<close>

lemma subst_s_skl [simp]: "subst_s ''R^2 score (SKL):  %s'' s = Some (''R^2 score (SKL):  '' @ s)"
  by simp

lemma subst_s_cuml [simp]: "subst_s ''R^2 score (cuML): %s'' s = Some (''R^2 score (cuML): '' @ s)"
  by simp

lemma str_format_Inr:
  assumes "str_format rt fmt v st = Inr (r, st')"
  shows "\<exists>s h. str_of rt v (heap st) = Inr (s, h) \<and> st' = st\<lparr>heap := h\<rparr> \<and>
           (\<exists>t. subst_s fmt s = Some t \<and> r = StrV t)"
  using assms
  by (cases v) (auto simp: str_format_def py_str_def from_rt_def split: sum.splits option.splits)

lemma print_one:
  assumes "exec_stmt rt (Expr (Call (Var ''print'') [BinOp Mod (Const (StrLit fmt)) (Var x)] [])) st = Inr (u, st')"
    and "env st ''print'' = Some PrintFn" and "env st x = Some a"
  shows "\<exists>s h t. str_of rt a (heap st) = Inr (s, h) \<and> subst_s fmt s = Some t \<and>
           stdout st' = stdout st @ t @ [newline] \<and> heap st' = h \<and> env st' = env st"
proof -
  from assms obtain r st1 z where
    f: "str_format rt fmt a st = Inr (r, st1)" and
    p: "apply_fn rt (Var ''print'') PrintFn [r] [] st1 = Inr (z, st')"
    by (auto simp: eval_binop_def split: sum.splits)
  from str_format_Inr[OF f] obtain s h t where
    s: "str_of rt a (heap st) = Inr (s, h)" "st1 = st\<lparr>heap := h\<rparr>" "subst_s fmt s = Some t" "r = StrV t"
    by blast
  from p s have "st' = st\<lparr>heap := h, log := log st @ [CallEv (Var ''print'') PrintFn [StrV t] []],
      stdout := stdout st @ t @ [newline]\<rparr>"
    by (simp add: apply_fn_def py_print_def py_str_def str_of_def from_rt_def)
  with s show ?thesis by simp
qed

lemma demo_compare:
  "exec_cell (demo_rt []) cell_compare demo_scores =
     Inr ((), demo_scores\<lparr>stdout := ''R^2 score (SKL):  0.9'' @ [newline] @ ''R^2 score (cuML): 0.8'' @ [newline],
        log := [CallEv (Var ''print'') PrintFn [StrV ''R^2 score (SKL):  0.9''] [],
                CallEv (Var ''print'') PrintFn [StrV ''R^2 score (cuML): 0.8''] []]\<rparr>)"
  by (simp add: cell_compare_def demo_scores_def sem_defs demo_rt_def)

text \<open>
  The claim as stated fails: with the scores \<open>0.9\<close> and \<open>0.8\<close> the step prints the two
  lines below, and neither line holds both scores.
\<close>

theorem one_line_counterexample:
  "printed_lines (final (exec_cell (demo_rt []) cell_compare demo_scores)) =
     [''R^2 score (SKL):  0.9'', ''R^2 score (cuML): 0.8''] \<and>
   \<not> sublist ''0.8'' ''R^2 score (SKL):  0.9'' \<and>
   \<not> sublist ''0.9'' ''R^2 score (cuML): 0.8''"
  by (simp add: demo_compare final_def printed_lines_def newline_def sublist_Cons_right)

text \<open>
  Claim C6, as amended. The comparison step prints two lines, one per score, not one line
  holding both: first \<open>R^2 score (SKL):  \<close> followed by the text of the host-side score,
  then \<open>R^2 score (cuML): \<close> followed by the text of the device-side score, each ended by
  a newline. The text of a score is what \<open>str\<close> returns for the value bound to
  \<open>r2_score_sk\<close> and \<open>r2_score_cuml\<close>; the first is asked for before the second.
\<close>

theorem compare_prints_two_lines:
  assumes "exec_cell rt cell_compare st = Inr (u, st')"
    and "env st ''print'' = Some PrintFn"
    and "env st ''r2_score_sk'' = Some a"
    and "env st ''r2_score_cuml'' = Some b"
  shows "\<exists>sa h1 sb.
           str_of rt a (heap st) = Inr (sa, h1) \<and> str_of rt b h1 = Inr (sb, heap st') \<and>
           stdout st' = stdout st @ ''R^2 score (SKL):  '' @ sa @ [newline]
                                  @ ''R^2 score (cuML): '' @ sb @ [newline]"
proof -
  from assms(1) obtain st1 where
    1: "exec_stmt rt (Expr (Call (Var ''print'') [BinOp Mod (Const (StrLit ''R^2 score (SKL):  %s'')) (Var ''r2_score_sk'')] [])) st = Inr ((), st1)" and
    2: "exec_stmt rt (Expr (Call (Var ''print'') [BinOp Mod (Const (StrLit ''R^2 score (cuML): %s'')) (Var ''r2_score_cuml'')] [])) st1 = Inr ((), st')"
    unfolding cell_compare_def by (auto split: sum.splits)
  from print_one[OF 1 assms(2,3)] obtain sa h1 where
    a: "str_of rt a (heap st) = Inr (sa, h1)"
       "stdout st1 = stdout st @ ''R^2 score (SKL):  '' @ sa @ [newline]"
       "heap st1 = h1" "env st1 = env st"
    by auto
  from print_one[OF 2, of b] assms(2,4) a(4) obtain sb where
    b: "str_of rt b (heap st1) = Inr (sb, heap st')"
       "stdout st' = stdout st1 @ ''R^2 score (cuML): '' @ sb @ [newline]"
    by auto
  from a b show ?thesis by auto
qed

theorem compare_prints_two_lines_witness:
  "ok (exec_cell (demo_rt []) cell_compare demo_scores) \<and>
   env demo_scores ''print'' = Some PrintFn \<and>
   env demo_scores ''r2_score_sk'' = Some (ObjV ''0.9'') \<and>
   env demo_scores ''r2_score_cuml'' = Some (ObjV ''0.8'') \<and>
   (\<exists>sa h1 sb.
      str_of (demo_rt []) (ObjV ''0.9'') (heap demo_scores) = Inr (sa, h1) \<and>
      str_of (demo_rt []) (ObjV ''0.8'') h1 =
        Inr (sb, heap (final (exec_cell (demo_rt []) cell_compare demo_scores))) \<and>
      stdout (final (exec_cell (demo_rt []) cell_compare demo_scores)) =
        stdout demo_scores @ ''R^2 score (SKL):  '' @ sa @ [newline]
                           @ ''R^2 score (cuML): '' @ sb @ [newline])"
proof -
  have e: "env demo_scores ''print'' = Some PrintFn"
    "env demo_scores ''r2_score_sk'' = Some (ObjV ''0.9'')"
    "env demo_scores ''r2_score_cuml'' = Some (ObjV ''0.8'')"
    by (simp_all add: demo_scores_def)
  from compare_prints_two_lines[OF demo_compare e] e show ?thesis
    by (simp add: demo_compare final_def ok_def)
qed

subsection \<open>Both scores are computed against the device-side labels\<close>












subsection \<open>The host-side twins and their use\<close>

text \<open>
  In a run in which no cell failed the statements of the notebook ran as one sequence
  (\<open>clean_run\<close>), and each call can be found at its place in the log.
\<close>

lemma twins_made:
  assumes n: "calls_of n = []"
    and run: "exec_stmts rt (stmts_of (notebook n)) (init h) = Inr (u, fin)"
  shows "\<exists>xd xtd yd ytd xh xth yh yth m1 m2 m3 m4 h1 h2 h3 h4 h1' h2' h3' h4'.
      env fin ''X_cudf'' = Some xd \<and> env fin ''X_cudf_test'' = Some xtd \<and>
      env fin ''y_cudf'' = Some yd \<and> env fin ''y_cudf_test'' = Some ytd \<and>
      env fin ''X_train'' = Some xh \<and> env fin ''X_test'' = Some xth \<and>
      env fin ''y_train'' = Some yh \<and> env fin ''y_test'' = Some yth \<and>
      rt_getattr rt xd ''to_pandas'' h1 = Inr (m1, h1') \<and>
      log fin ! 8 = CallEv (Attr (Var ''X_cudf'') ''to_pandas'') m1 [] [] \<and>
      returns rt m1 [] [] h1' xh \<and>
      rt_getattr rt xtd ''to_pandas'' h2 = Inr (m2, h2') \<and>
      log fin ! 9 = CallEv (Attr (Var ''X_cudf_test'') ''to_pandas'') m2 [] [] \<and>
      returns rt m2 [] [] h2' xth \<and>
      rt_getattr rt yd ''to_pandas'' h3 = Inr (m3, h3') \<and>
      log fin ! 10 = CallEv (Attr (Var ''y_cudf'') ''to_pandas'') m3 [] [] \<and>
      returns rt m3 [] [] h3' yh \<and>
      rt_getattr rt ytd ''to_pandas'' h4 = Inr (m4, h4') \<and>
      log fin ! 11 = CallEv (Attr (Var ''y_cudf_test'') ''to_pandas'') m4 [] [] \<and>
      returns rt m4 [] [] h4' yth"
proof -
  define G where "G = stmts_of [cell_cudf, cell_params n, cell_generate]"
  define R where "R = stmts_of [cell_sk_fit, cell_sk_predict, cell_sk_score, cell_cuml_fit,
      cell_cuml_predict, cell_cuml_score, cell_compare]"
  have cG: "length (concat (map stmt_calls G)) = 8"
    using n by (simp add: G_def stmts_of_def cell_defs)
  let ?t = "\<lambda>x d. Assign x (Call (Attr (Var d) ''to_pandas'') [] [])"
  have 1: "stmts_of (notebook n) = G @ [?t ''X_train'' ''X_cudf''] @ (drop 1 (body cell_transfer) @ R)"
    by (simp add: G_def R_def stmts_of_def notebook_def workflow_def cell_transfer_def)
  have 2: "stmts_of (notebook n) =
      (G @ take 1 (body cell_transfer)) @ [?t ''X_test'' ''X_cudf_test''] @ (drop 2 (body cell_transfer) @ R)"
    by (simp add: G_def R_def stmts_of_def notebook_def workflow_def cell_transfer_def)
  have 3: "stmts_of (notebook n) =
      (G @ take 2 (body cell_transfer)) @ [?t ''y_train'' ''y_cudf''] @ (drop 3 (body cell_transfer) @ R)"
    by (simp add: G_def R_def stmts_of_def notebook_def workflow_def cell_transfer_def)
  have 4: "stmts_of (notebook n) =
      (G @ take 3 (body cell_transfer)) @ [?t ''y_test'' ''y_cudf_test''] @ R"
    by (simp add: G_def R_def stmts_of_def notebook_def workflow_def cell_transfer_def)
  have "\<exists>dv mv h1 h2 v. env fin ''X_cudf'' = Some dv \<and> rt_getattr rt dv ''to_pandas'' h1 = Inr (mv, h2) \<and>
      log fin ! 8 = CallEv (Attr (Var ''X_cudf'') ''to_pandas'') mv [] [] \<and> returns rt mv [] [] h2 v \<and>
      env fin ''X_train'' = Some v"
    by (rule method_in_run[OF run[unfolded 1]])
       (simp_all add: cG R_def writes_def stmts_of_def cell_defs init_def)
  then obtain xd m1 h1 h1' xh where
    a1: "env fin ''X_cudf'' = Some xd" "rt_getattr rt xd ''to_pandas'' h1 = Inr (m1, h1')"
        "log fin ! 8 = CallEv (Attr (Var ''X_cudf'') ''to_pandas'') m1 [] []"
        "returns rt m1 [] [] h1' xh" "env fin ''X_train'' = Some xh"
    by blast
  have "\<exists>dv mv h1 h2 v. env fin ''X_cudf_test'' = Some dv \<and> rt_getattr rt dv ''to_pandas'' h1 = Inr (mv, h2) \<and>
      log fin ! 9 = CallEv (Attr (Var ''X_cudf_test'') ''to_pandas'') mv [] [] \<and> returns rt mv [] [] h2 v \<and>
      env fin ''X_test'' = Some v"
    by (rule method_in_run[OF run[unfolded 2]])
       (simp_all add: cG R_def writes_def stmts_of_def cell_defs init_def)
  then obtain xtd m2 h2 h2' xth where
    a2: "env fin ''X_cudf_test'' = Some xtd" "rt_getattr rt xtd ''to_pandas'' h2 = Inr (m2, h2')"
        "log fin ! 9 = CallEv (Attr (Var ''X_cudf_test'') ''to_pandas'') m2 [] []"
        "returns rt m2 [] [] h2' xth" "env fin ''X_test'' = Some xth"
    by blast
  have "\<exists>dv mv h1 h2 v. env fin ''y_cudf'' = Some dv \<and> rt_getattr rt dv ''to_pandas'' h1 = Inr (mv, h2) \<and>
      log fin ! 10 = CallEv (Attr (Var ''y_cudf'') ''to_pandas'') mv [] [] \<and> returns rt mv [] [] h2 v \<and>
      env fin ''y_train'' = Some v"
    by (rule method_in_run[OF run[unfolded 3]])
       (simp_all add: cG R_def writes_def stmts_of_def cell_defs init_def)
  then obtain yd m3 h3 h3' yh where
    a3: "env fin ''y_cudf'' = Some yd" "rt_getattr rt yd ''to_pandas'' h3 = Inr (m3, h3')"
        "log fin ! 10 = CallEv (Attr (Var ''y_cudf'') ''to_pandas'') m3 [] []"
        "returns rt m3 [] [] h3' yh" "env fin ''y_train'' = Some yh"
    by blast
  have "\<exists>dv mv h1 h2 v. env fin ''y_cudf_test'' = Some dv \<and> rt_getattr rt dv ''to_pandas'' h1 = Inr (mv, h2) \<and>
      log fin ! 11 = CallEv (Attr (Var ''y_cudf_test'') ''to_pandas'') mv [] [] \<and> returns rt mv [] [] h2 v \<and>
      env fin ''y_test'' = Some v"
    by (rule method_in_run[OF run[unfolded 4]])
       (simp_all add: cG R_def writes_def stmts_of_def cell_defs init_def)
  then obtain ytd m4 h4 h4' yth where
    a4: "env fin ''y_cudf_test'' = Some ytd" "rt_getattr rt ytd ''to_pandas'' h4 = Inr (m4, h4')"
        "log fin ! 11 = CallEv (Attr (Var ''y_cudf_test'') ''to_pandas'') m4 [] []"
        "returns rt m4 [] [] h4' yth" "env fin ''y_test'' = Some yth"
    by blast
  show ?thesis
    by (intro exI conjI)
       (rule a1 a2 a3 a4)+
qed

lemma twins_passed:
  assumes n: "calls_of n = []"
    and run: "exec_stmts rt (stmts_of (notebook n)) (init h) = Inr (u, fin)"
  shows "\<exists>xd xtd yd xh xth yh f1 f2 f3 f4.
      env fin ''X_cudf'' = Some xd \<and> env fin ''X_cudf_test'' = Some xtd \<and>
      env fin ''y_cudf'' = Some yd \<and>
      env fin ''X_train'' = Some xh \<and> env fin ''X_test'' = Some xth \<and>
      env fin ''y_train'' = Some yh \<and>
      log fin ! 13 = CallEv (Attr (Var ''ols_sk'') ''fit'') f1 [xh, yh] [] \<and>
      log fin ! 14 = CallEv (Attr (Var ''ols_sk'') ''predict'') f2 [xth] [] \<and>
      log fin ! 17 = CallEv (Attr (Var ''ols_cuml'') ''fit'') f3 [xd, yd] [] \<and>
      log fin ! 18 = CallEv (Attr (Var ''ols_cuml'') ''predict'') f4 [xtd] []"
proof -
  define T where "T = stmts_of [cell_cudf, cell_params n, cell_generate, cell_transfer]"
  have cT: "length (concat (map stmt_calls T)) = 12"
    using n by (simp add: T_def stmts_of_def cell_defs)
  let ?fit_sk = "Attr (Var ''ols_sk'') ''fit''"
  let ?predict_sk = "Attr (Var ''ols_sk'') ''predict''"
  let ?fit_cuml = "Attr (Var ''ols_cuml'') ''fit''"
  let ?predict_cuml = "Attr (Var ''ols_cuml'') ''predict''"
  \<comment> \<open>\<open>ols_sk.fit(X_train, y_train)\<close>\<close>
  let ?pre1 = "T @ take 1 (body cell_sk_fit)"
  let ?s1 = "Expr (Call ?fit_sk (map Var [''X_train'', ''y_train'']) [])"
  let ?post1 = "stmts_of [cell_sk_predict, cell_sk_score, cell_cuml_fit, cell_cuml_predict,
      cell_cuml_score, cell_compare]"
  have 1: "stmts_of (notebook n) = ?pre1 @ [?s1] @ ?post1"
    by (simp add: T_def stmts_of_def notebook_def workflow_def cell_sk_fit_def)
  have "\<exists>fv vs. map (env fin) [''X_train'', ''y_train''] = map Some vs \<and> log fin ! 13 = CallEv ?fit_sk fv vs []"
    by (rule call_in_run[of rt ?pre1 ?s1 ?post1 "init h" u fin ?fit_sk _ "''x''", OF run[unfolded 1]])
       (simp_all add: cT writes_def stmts_of_def cell_defs init_def)
  then obtain f1 xh yh where
    a1: "env fin ''X_train'' = Some xh" "env fin ''y_train'' = Some yh"
        "log fin ! 13 = CallEv ?fit_sk f1 [xh, yh] []"
    by (auto simp: map_eq_Cons_conv)
  \<comment> \<open>\<open>predict_sk = ols_sk.predict(X_test)\<close>\<close>
  let ?pre2 = "T @ body cell_sk_fit"
  let ?s2 = "Assign ''predict_sk'' (Call ?predict_sk (map Var [''X_test'']) [])"
  let ?post2 = "stmts_of [cell_sk_score, cell_cuml_fit, cell_cuml_predict, cell_cuml_score, cell_compare]"
  have 2: "stmts_of (notebook n) = ?pre2 @ [?s2] @ ?post2"
    by (simp add: T_def stmts_of_def notebook_def workflow_def cell_sk_predict_def)
  have "\<exists>fv vs. map (env fin) [''X_test''] = map Some vs \<and> log fin ! 14 = CallEv ?predict_sk fv vs []"
    by (rule call_in_run[of rt ?pre2 ?s2 ?post2 "init h" u fin ?predict_sk _ "''predict_sk''", OF run[unfolded 2]])
       (simp_all add: cT writes_def stmts_of_def cell_defs init_def)
  then obtain f2 xth where
    a2: "env fin ''X_test'' = Some xth" "log fin ! 14 = CallEv ?predict_sk f2 [xth] []"
    by (auto simp: map_eq_Cons_conv)
  \<comment> \<open>\<open>ols_cuml.fit(X_cudf, y_cudf)\<close>\<close>
  let ?pre3 = "T @ stmts_of [cell_sk_fit, cell_sk_predict, cell_sk_score] @ take 1 (body cell_cuml_fit)"
  let ?s3 = "Expr (Call ?fit_cuml (map Var [''X_cudf'', ''y_cudf'']) [])"
  let ?post3 = "stmts_of [cell_cuml_predict, cell_cuml_score, cell_compare]"
  have 3: "stmts_of (notebook n) = ?pre3 @ [?s3] @ ?post3"
    by (simp add: T_def stmts_of_def notebook_def workflow_def cell_cuml_fit_def)
  have "\<exists>fv vs. map (env fin) [''X_cudf'', ''y_cudf''] = map Some vs \<and> log fin ! 17 = CallEv ?fit_cuml fv vs []"
    by (rule call_in_run[of rt ?pre3 ?s3 ?post3 "init h" u fin ?fit_cuml _ "''x''", OF run[unfolded 3]])
       (simp_all add: cT writes_def stmts_of_def cell_defs init_def)
  then obtain f3 xd yd where
    a3: "env fin ''X_cudf'' = Some xd" "env fin ''y_cudf'' = Some yd"
        "log fin ! 17 = CallEv ?fit_cuml f3 [xd, yd] []"
    by (auto simp: map_eq_Cons_conv)
  \<comment> \<open>\<open>predict_cuml = ols_cuml.predict(X_cudf_test)\<close>\<close>
  let ?pre4 = "T @ stmts_of [cell_sk_fit, cell_sk_predict, cell_sk_score, cell_cuml_fit]"
  let ?s4 = "Assign ''predict_cuml'' (Call ?predict_cuml (map Var [''X_cudf_test'']) [])"
  let ?post4 = "stmts_of [cell_cuml_score, cell_compare]"
  have 4: "stmts_of (notebook n) = ?pre4 @ [?s4] @ ?post4"
    by (simp add: T_def stmts_of_def notebook_def workflow_def cell_cuml_predict_def)
  have "\<exists>fv vs. map (env fin) [''X_cudf_test''] = map Some vs \<and> log fin ! 18 = CallEv ?predict_cuml fv vs []"
    by (rule call_in_run[of rt ?pre4 ?s4 ?post4 "init h" u fin ?predict_cuml _ "''predict_cuml''", OF run[unfolded 4]])
       (simp_all add: cT writes_def stmts_of_def cell_defs init_def)
  then obtain f4 xtd where
    a4: "env fin ''X_cudf_test'' = Some xtd" "log fin ! 18 = CallEv ?predict_cuml f4 [xtd] []"
    by (auto simp: map_eq_Cons_conv)
  show ?thesis
    by (intro exI conjI)
       (rule a1 a2 a3 a4)+
qed

text \<open>
  The claim as stated fails for \<open>y_test\<close>: it is one of the four twins, and no statement
  of the notebook reads it.
\<close>

theorem twins_consumed_counterexample:
  "''y_test'' \<in> set [''X_train'', ''X_test'', ''y_train'', ''y_test''] \<and>
   ''y_test'' \<in> set (writes (body cell_transfer)) \<and>
   ''y_test'' \<notin> set (all_reads (stmts_of (notebook n_samples_src)))"
  by (simp add: all_reads_def writes_def stmts_of_def notebook_def workflow_def cell_defs
      n_samples_src_def pow2_def)

text \<open>
  Claim C4, as amended. In a run in which no cell fails, the transfer step makes a
  host-side twin of each of the four device-side frames: calls 8 to 11 of the run apply the
  attribute \<open>to_pandas\<close> of the values of \<open>X_cudf\<close>, \<open>X_cudf_test\<close>, \<open>y_cudf\<close> and
  \<open>y_cudf_test\<close>, without arguments, and what these calls return is what \<open>X_train\<close>,
  \<open>X_test\<close>, \<open>y_train\<close> and \<open>y_test\<close> are bound to. The device-side names stay bound to the
  same values, which are the arguments of the later cuML \<open>fit\<close> (call 17) and \<open>predict\<close>
  (call 18). Of the twins, \<open>X_train\<close> and \<open>y_train\<close> are the arguments of the host-side
  model's \<open>fit\<close> (call 13) and \<open>X_test\<close> is the argument of its \<open>predict\<close> (call 14). The
  twin \<open>y_test\<close> is read by no statement of the notebook. Whether \<open>to_pandas\<close> copies is
  the library's business and is not stated.
\<close>

theorem transfer_twins_use:
  assumes "calls_of n = []" and "reads n = []" and "clean (run rt n h)"
  shows "(\<exists>xd xtd yd ytd xh xth yh yth m1 m2 m3 m4 h1 h2 h3 h4 h1' h2' h3' h4' f1 f2 f3 f4.
            env (final (run rt n h)) ''X_cudf'' = Some xd \<and>
            env (final (run rt n h)) ''X_cudf_test'' = Some xtd \<and>
            env (final (run rt n h)) ''y_cudf'' = Some yd \<and>
            env (final (run rt n h)) ''y_cudf_test'' = Some ytd \<and>
            env (final (run rt n h)) ''X_train'' = Some xh \<and>
            env (final (run rt n h)) ''X_test'' = Some xth \<and>
            env (final (run rt n h)) ''y_train'' = Some yh \<and>
            env (final (run rt n h)) ''y_test'' = Some yth \<and>
            rt_getattr rt xd ''to_pandas'' h1 = Inr (m1, h1') \<and>
            log (final (run rt n h)) ! 8 = CallEv (Attr (Var ''X_cudf'') ''to_pandas'') m1 [] [] \<and>
            returns rt m1 [] [] h1' xh \<and>
            rt_getattr rt xtd ''to_pandas'' h2 = Inr (m2, h2') \<and>
            log (final (run rt n h)) ! 9 = CallEv (Attr (Var ''X_cudf_test'') ''to_pandas'') m2 [] [] \<and>
            returns rt m2 [] [] h2' xth \<and>
            rt_getattr rt yd ''to_pandas'' h3 = Inr (m3, h3') \<and>
            log (final (run rt n h)) ! 10 = CallEv (Attr (Var ''y_cudf'') ''to_pandas'') m3 [] [] \<and>
            returns rt m3 [] [] h3' yh \<and>
            rt_getattr rt ytd ''to_pandas'' h4 = Inr (m4, h4') \<and>
            log (final (run rt n h)) ! 11 = CallEv (Attr (Var ''y_cudf_test'') ''to_pandas'') m4 [] [] \<and>
            returns rt m4 [] [] h4' yth \<and>
            log (final (run rt n h)) ! 13 = CallEv (Attr (Var ''ols_sk'') ''fit'') f1 [xh, yh] [] \<and>
            log (final (run rt n h)) ! 14 = CallEv (Attr (Var ''ols_sk'') ''predict'') f2 [xth] [] \<and>
            log (final (run rt n h)) ! 17 = CallEv (Attr (Var ''ols_cuml'') ''fit'') f3 [xd, yd] [] \<and>
            log (final (run rt n h)) ! 18 = CallEv (Attr (Var ''ols_cuml'') ''predict'') f4 [xtd] []) \<and>
         length (log (final (run rt n h))) = 22 \<and>
         ''y_test'' \<notin> set (all_reads (stmts_of (notebook n)))"
proof -
  define fin where "fin = final (run rt n h)"
  note r = clean_run[OF assms(3), folded fin_def]
  from twins_made[OF assms(1) r] obtain xd xtd yd ytd xh xth yh yth m1 m2 m3 m4 h1 h2 h3 h4 h1' h2' h3' h4' where
    a: "env fin ''X_cudf'' = Some xd" "env fin ''X_cudf_test'' = Some xtd"
       "env fin ''y_cudf'' = Some yd" "env fin ''y_cudf_test'' = Some ytd"
       "env fin ''X_train'' = Some xh" "env fin ''X_test'' = Some xth"
       "env fin ''y_train'' = Some yh" "env fin ''y_test'' = Some yth"
       "rt_getattr rt xd ''to_pandas'' h1 = Inr (m1, h1')"
       "log fin ! 8 = CallEv (Attr (Var ''X_cudf'') ''to_pandas'') m1 [] []"
       "returns rt m1 [] [] h1' xh"
       "rt_getattr rt xtd ''to_pandas'' h2 = Inr (m2, h2')"
       "log fin ! 9 = CallEv (Attr (Var ''X_cudf_test'') ''to_pandas'') m2 [] []"
       "returns rt m2 [] [] h2' xth"
       "rt_getattr rt yd ''to_pandas'' h3 = Inr (m3, h3')"
       "log fin ! 10 = CallEv (Attr (Var ''y_cudf'') ''to_pandas'') m3 [] []"
       "returns rt m3 [] [] h3' yh"
       "rt_getattr rt ytd ''to_pandas'' h4 = Inr (m4, h4')"
       "log fin ! 11 = CallEv (Attr (Var ''y_cudf_test'') ''to_pandas'') m4 [] []"
       "returns rt m4 [] [] h4' yth"
    by blast
  from twins_passed[OF assms(1) r] a(1-7) obtain f1 f2 f3 f4 where
    b: "log fin ! 13 = CallEv (Attr (Var ''ols_sk'') ''fit'') f1 [xh, yh] []"
       "log fin ! 14 = CallEv (Attr (Var ''ols_sk'') ''predict'') f2 [xth] []"
       "log fin ! 17 = CallEv (Attr (Var ''ols_cuml'') ''fit'') f3 [xd, yd] []"
       "log fin ! 18 = CallEv (Attr (Var ''ols_cuml'') ''predict'') f4 [xtd] []"
    by auto
  from exec_stmts_log[OF r] have "map callee (log fin) = cells_calls (notebook n)"
    by (auto simp: init_def cells_calls_def)
  from arg_cong[OF this, of length] have "length (log fin) = length (cells_calls (notebook n))"
    by simp
  then have c: "length (log fin) = 22"
    by (simp add: notebook_calls[OF assms(1)])
  have d: "''y_test'' \<notin> set (all_reads (stmts_of (notebook n)))"
    using assms(2) by (simp add: all_reads_def stmts_of_def notebook_def workflow_def cell_defs)
  have "\<exists>xd xtd yd ytd xh xth yh yth m1 m2 m3 m4 h1 h2 h3 h4 h1' h2' h3' h4' f1 f2 f3 f4.
            env fin ''X_cudf'' = Some xd \<and>
            env fin ''X_cudf_test'' = Some xtd \<and>
            env fin ''y_cudf'' = Some yd \<and>
            env fin ''y_cudf_test'' = Some ytd \<and>
            env fin ''X_train'' = Some xh \<and>
            env fin ''X_test'' = Some xth \<and>
            env fin ''y_train'' = Some yh \<and>
            env fin ''y_test'' = Some yth \<and>
            rt_getattr rt xd ''to_pandas'' h1 = Inr (m1, h1') \<and>
            log fin ! 8 = CallEv (Attr (Var ''X_cudf'') ''to_pandas'') m1 [] [] \<and>
            returns rt m1 [] [] h1' xh \<and>
            rt_getattr rt xtd ''to_pandas'' h2 = Inr (m2, h2') \<and>
            log fin ! 9 = CallEv (Attr (Var ''X_cudf_test'') ''to_pandas'') m2 [] [] \<and>
            returns rt m2 [] [] h2' xth \<and>
            rt_getattr rt yd ''to_pandas'' h3 = Inr (m3, h3') \<and>
            log fin ! 10 = CallEv (Attr (Var ''y_cudf'') ''to_pandas'') m3 [] [] \<and>
            returns rt m3 [] [] h3' yh \<and>
            rt_getattr rt ytd ''to_pandas'' h4 = Inr (m4, h4') \<and>
            log fin ! 11 = CallEv (Attr (Var ''y_cudf_test'') ''to_pandas'') m4 [] [] \<and>
            returns rt m4 [] [] h4' yth \<and>
            log fin ! 13 = CallEv (Attr (Var ''ols_sk'') ''fit'') f1 [xh, yh] [] \<and>
            log fin ! 14 = CallEv (Attr (Var ''ols_sk'') ''predict'') f2 [xth] [] \<and>
            log fin ! 17 = CallEv (Attr (Var ''ols_cuml'') ''fit'') f3 [xd, yd] [] \<and>
            log fin ! 18 = CallEv (Attr (Var ''ols_cuml'') ''predict'') f4 [xtd] []"
    by (intro exI conjI)
       (rule a b)+
  with c d show ?thesis
    unfolding fin_def by (intro conjI)
qed

theorem transfer_twins_use_witness:
  "calls_of (pow2 19) = [] \<and> reads (pow2 19) = [] \<and> clean (run (demo_rt []) (pow2 19) ()) \<and>
   (\<exists>xd xh yh m1 h1 h1' f1.
      env (final (run (demo_rt []) (pow2 19) ())) ''X_cudf'' = Some xd \<and>
      rt_getattr (demo_rt []) xd ''to_pandas'' h1 = Inr (m1, h1') \<and>
      log (final (run (demo_rt []) (pow2 19) ())) ! 8 = CallEv (Attr (Var ''X_cudf'') ''to_pandas'') m1 [] [] \<and>
      returns (demo_rt []) m1 [] [] h1' xh \<and>
      env (final (run (demo_rt []) (pow2 19) ())) ''X_train'' = Some xh \<and>
      env (final (run (demo_rt []) (pow2 19) ())) ''y_train'' = Some yh \<and>
      log (final (run (demo_rt []) (pow2 19) ())) ! 13 = CallEv (Attr (Var ''ols_sk'') ''fit'') f1 [xh, yh] []) \<and>
   ''y_test'' \<notin> set (all_reads (stmts_of (notebook (pow2 19))))"
proof -
  have c: "calls_of (pow2 19) = []" by simp
  have d: "reads (pow2 19) = []" by (simp add: pow2_def)
  have k: "clean (run (demo_rt []) (pow2 19) ())" by (rule demo_clean) simp
  from transfer_twins_use[OF c d k] c d k show ?thesis by blast
qed

subsection \<open>The tip percentage divides by the bill without a guard\<close>

lemma eval_binop_Div: "eval_binop rt Div x y st = from_rt st (rt_binop rt Div x y (heap st))"
  by (simp add: eval_binop_def split: val.splits)

lemma eval_binop_Mult: "eval_binop rt Mult x y st = from_rt st (rt_binop rt Mult x y (heap st))"
  by (simp add: eval_binop_def split: val.splits)

lemma from_rt_Inr: "from_rt st r = Inr (v, st') \<longleftrightarrow> (\<exists>h. r = Inr (v, h) \<and> st' = st\<lparr>heap := h\<rparr>)"
  by (auto simp: from_rt_def split: sum.splits)

text \<open>
  The statement \<open>tips_df['tip_percentage'] = tips_df['tip']/tips_df['total_bill']*100\<close>,
  when it returns, has looked up the two columns, divided them, multiplied the quotient by
  \<open>100\<close> and stored the product, in this order and with nothing in between: the division
  is applied to whatever the \<open>total_bill\<close> column holds.
\<close>

lemma tip_percentage_stmt:
  assumes "exec_stmt rt (body cell_cudf ! 3) st = Inr (u, st')"
  shows "\<exists>df tip h1 bill h2 q h3 p h4.
           env st ''tips_df'' = Some df \<and>
           rt_getitem rt df (StrV ''tip'') (heap st) = Inr (tip, h1) \<and>
           rt_getitem rt df (StrV ''total_bill'') h1 = Inr (bill, h2) \<and>
           rt_binop rt Div tip bill h2 = Inr (q, h3) \<and>
           rt_binop rt Mult q (IntV 100) h3 = Inr (p, h4) \<and>
           rt_setitem rt df (StrV ''tip_percentage'') p h4 = Inr ((), heap st')"
  using assms
  by (auto simp: cell_cudf_def eval_binop_Div eval_binop_Mult from_rt_Inr
      split: sum.splits option.splits)

lemma is_num_inf_of [simp]: "\<not> is_num (inf_of q)"
  by (simp add: inf_of_def is_num_def)

lemma fmul_num: "is_num (fmul x y) \<Longrightarrow> is_num x \<and> is_num y"
  by (cases x; cases y) (auto simp: is_num_def inf_of_def split: if_splits)

lemma fdiv_num: "is_num (fdiv x y) \<Longrightarrow> is_num x \<and> y \<noteq> Num 0"
  by (cases x; cases y) (auto simp: is_num_def inf_of_def split: if_splits)

lemma row_num: "is_num (tip_percentage_row t b) \<Longrightarrow> is_num t \<and> b \<noteq> Num 0"
  unfolding tip_percentage_row_def by (blast dest: fmul_num fdiv_num)

text \<open>Rows with a zero bill: a positive, a zero and a negative tip.\<close>

lemma zero_bill_rows:
  "tip_percentage [Num (101 / 100), Num 3, Num 0, Num (-2)] [Num (1699 / 100), Num 0, Num 0, Num 0] =
     [Num (10100 / 1699), PInf, NaN, NInf]"
  by (simp add: tip_percentage_def tip_percentage_row_def inf_of_def)

text \<open>
  Claim C10. The tip percentage is \<open>tip / total_bill * 100\<close>, computed for every row with
  no test of the divisor. Whenever the result of a row is a number, the row's
  \<open>total_bill\<close> is not zero: a zero bill gives an infinity or NaN, never a number and never
  an error.
\<close>

theorem tip_percentage_needs_nonzero_bill:
  assumes "length tip = length total_bill" and "i < length total_bill"
    and "is_num (tip_percentage tip total_bill ! i)"
  shows "tip_percentage tip total_bill ! i = fmul (fdiv (tip ! i) (total_bill ! i)) (Num 100) \<and>
         total_bill ! i \<noteq> Num 0"
proof -
  have r: "tip_percentage tip total_bill ! i = tip_percentage_row (tip ! i) (total_bill ! i)"
    using assms(1,2) by (simp add: tip_percentage_def)
  with assms(3) row_num[of "tip ! i" "total_bill ! i"] show ?thesis
    by (simp add: tip_percentage_row_def)
qed

theorem tip_percentage_needs_nonzero_bill_witness:
  "length [Num (101 / 100), Num 3] = length [Num (1699 / 100), Num 0] \<and>
   0 < length [Num (1699 / 100), Num 0] \<and>
   is_num (tip_percentage [Num (101 / 100), Num 3] [Num (1699 / 100), Num 0] ! 0) \<and>
   [Num (1699 / 100), Num 0] ! 0 \<noteq> Num 0 \<and>
   \<not> is_num (tip_percentage [Num (101 / 100), Num 3] [Num (1699 / 100), Num 0] ! 1)"
proof -
  have a: "length [Num (101 / 100), Num 3] = length [Num (1699 / 100), Num 0]" by simp
  have b: "0 < length [Num (1699 / 100), Num 0]" by simp
  have c: "is_num (tip_percentage [Num (101 / 100), Num 3] [Num (1699 / 100), Num 0] ! 0)"
    by (simp add: tip_percentage_def tip_percentage_row_def is_num_def)
  have d: "\<not> is_num (tip_percentage [Num (101 / 100), Num 3] [Num (1699 / 100), Num 0] ! 1)"
    by (simp add: tip_percentage_def tip_percentage_row_def is_num_def inf_of_def)
  from tip_percentage_needs_nonzero_bill[OF a b c] a b c d show ?thesis by simp
qed

end
